theory Spec2Isabelle
  imports Complex_Main
begin

section \<open>The terminal donut: vector math, depth buffer, rasterizer, compositor\<close>

text \<open>
  A shallow embedding of \<^verbatim>\<open>src/main.cpp\<close>. The C++ \<^verbatim>\<open>float\<close> is read as a real
  number: every finite float is a real, comparisons of finite floats are comparisons of
  reals, and the arithmetic is taken exact (no rounding, overflow, underflow, infinities
  or NaN); a decimal literal such as \<^verbatim>\<open>0.07f\<close> is taken at its decimal value. The
  C++ \<^verbatim>\<open>int\<close> is read as an unbounded integer; the buffers of the program are a few
  hundred cells wide, far from the 32-bit range. A vector index out of range is
  undefined behaviour in C++ and is the value \<open>None\<close> here.
\<close>

subsection \<open>Conversions and standard-library functions\<close>

text \<open>\<^verbatim>\<open>static_cast<int>(float)\<close>: the fractional part is dropped (rounding toward zero).\<close>

definition to_int :: "real \<Rightarrow> int" where
  "to_int r = (if 0 \<le> r then \<lfloor>r\<rfloor> else \<lceil>r\<rceil>)"

text \<open>\<^verbatim>\<open>std::round\<close>: nearest integer, halfway cases away from zero.\<close>

definition std_round :: "real \<Rightarrow> real" where
  "std_round r = (if 0 \<le> r then of_int \<lfloor>r + 1 / 2\<rfloor> else of_int \<lceil>r - 1 / 2\<rceil>)"

text \<open>\<^verbatim>\<open>std::max(a, b)\<close> is \<^verbatim>\<open>(a < b) ? b : a\<close>; \<^verbatim>\<open>std::min(a, b)\<close> is
  \<^verbatim>\<open>(b < a) ? b : a\<close>; \<^verbatim>\<open>std::clamp(v, lo, hi)\<close> is
  \<^verbatim>\<open>(v < lo) ? lo : (hi < v) ? hi : v\<close>.\<close>

definition std_max :: "'a::linorder \<Rightarrow> 'a \<Rightarrow> 'a" where
  "std_max a b = (if a < b then b else a)"

definition std_min :: "'a::linorder \<Rightarrow> 'a \<Rightarrow> 'a" where
  "std_min a b = (if b < a then b else a)"

definition std_clamp :: "'a::linorder \<Rightarrow> 'a \<Rightarrow> 'a \<Rightarrow> 'a" where
  "std_clamp v lo hi = (if v < lo then lo else if hi < v then hi else v)"

subsection \<open>Vector math (lines 9 to 25)\<close>

record Vec3 =
  vec_x :: real
  vec_y :: real
  vec_z :: real

definition rotateX :: "Vec3 \<Rightarrow> real \<Rightarrow> Vec3" where
  "rotateX v a =
     (let c = cos a; s = sin a
      in \<lparr>vec_x = vec_x v, vec_y = c * vec_y v - s * vec_z v, vec_z = s * vec_y v + c * vec_z v\<rparr>)"

definition rotateY :: "Vec3 \<Rightarrow> real \<Rightarrow> Vec3" where
  "rotateY v a =
     (let c = cos a; s = sin a
      in \<lparr>vec_x = c * vec_x v + s * vec_z v, vec_y = vec_y v, vec_z = - s * vec_x v + c * vec_z v\<rparr>)"

definition dot :: "Vec3 \<Rightarrow> Vec3 \<Rightarrow> real" where
  "dot a b = vec_x a * vec_x b + vec_y a * vec_y b + vec_z a * vec_z b"

text \<open>
  \<open>normalize\<close> in exact arithmetic, as the rasterizer's geometry is read throughout. Its
  binary32 reading, with overflow and rounding, is \<open>normalize_f32\<close> below.
\<close>

definition normalize_vec :: "Vec3 \<Rightarrow> Vec3" where
  "normalize_vec v =
     (let m = sqrt (dot v v)
      in if m > 0 then \<lparr>vec_x = vec_x v / m, vec_y = vec_y v / m, vec_z = vec_z v / m\<rparr>
         else \<lparr>vec_x = 0, vec_y = 0, vec_z = 0\<rparr>)"

text \<open>
  The same function with every division checked: a division whose divisor is zero is
  the value \<open>None\<close>. It is used to state that \<open>normalize_vec\<close> never divides by zero.
\<close>

definition checked_div :: "real \<Rightarrow> real \<Rightarrow> real option" where
  "checked_div a b = (if b = 0 then None else Some (a / b))"

definition normalize_checked :: "Vec3 \<Rightarrow> Vec3 option" where
  "normalize_checked v =
     (let m = sqrt (dot v v)
      in if m > 0 then
           (case checked_div (vec_x v) m of None \<Rightarrow> None | Some a \<Rightarrow>
            (case checked_div (vec_y v) m of None \<Rightarrow> None | Some b \<Rightarrow>
             (case checked_div (vec_z v) m of None \<Rightarrow> None | Some c \<Rightarrow>
                Some \<lparr>vec_x = a, vec_y = b, vec_z = c\<rparr>)))
         else Some \<lparr>vec_x = 0, vec_y = 0, vec_z = 0\<rparr>)"

subsection \<open>Binary32 arithmetic, for \<open>normalize\<close>\<close>

text \<open>
  The IEEE 754 binary32 values: the finite ones as the reals they denote (\<open>Fin r\<close> is
  a binary32 number when \<open>round32 r = Fin r\<close>), the two infinities and NaN. The two
  zeros are identified: their sign shows only in a division by zero, which
  \<open>normalize\<close> does not perform. Every operation rounds its exact result to the nearest
  binary32 number, ties to the even significand; a result of magnitude at least
  \<open>(2 - 2^-24) * 2^127\<close> becomes an infinity. The expressions are taken as compiled to
  binary32 operations one by one (no contraction, no wider intermediate format).
\<close>

datatype f32 = Fin real | PInf | NInf | NaN

definition f32_overflow :: real where
  "f32_overflow = (2 - 1 / 2 ^ 24) * 2 ^ 127"

text \<open>Rounding to the nearest integer, ties to even.\<close>

definition rne :: "real \<Rightarrow> int" where
  "rne x = (let f = \<lfloor>x\<rfloor>; d = x - real_of_int f
            in if d < 1 / 2 then f else if 1 / 2 < d then f + 1 else if even f then f else f + 1)"

text \<open>The spacing of the binary32 numbers around \<open>r\<close> (24 significant bits, least exponent -126).\<close>

definition quantum :: "real \<Rightarrow> real" where
  "quantum r = 2 powi (max (- 126) \<lfloor>log 2 \<bar>r\<bar>\<rfloor> - 23)"

definition round32 :: "real \<Rightarrow> f32" where
  "round32 r =
     (if f32_overflow \<le> r then PInf
      else if r \<le> - f32_overflow then NInf
      else if r = 0 then Fin 0
      else Fin (real_of_int (rne (r / quantum r)) * quantum r))"

fun fmul :: "f32 \<Rightarrow> f32 \<Rightarrow> f32" where
  "fmul NaN _ = NaN"
| "fmul _ NaN = NaN"
| "fmul (Fin a) (Fin b) = round32 (a * b)"
| "fmul (Fin a) PInf = (if a = 0 then NaN else if 0 < a then PInf else NInf)"
| "fmul (Fin a) NInf = (if a = 0 then NaN else if 0 < a then NInf else PInf)"
| "fmul PInf (Fin b) = (if b = 0 then NaN else if 0 < b then PInf else NInf)"
| "fmul NInf (Fin b) = (if b = 0 then NaN else if 0 < b then NInf else PInf)"
| "fmul PInf PInf = PInf"
| "fmul PInf NInf = NInf"
| "fmul NInf PInf = NInf"
| "fmul NInf NInf = PInf"

fun fadd :: "f32 \<Rightarrow> f32 \<Rightarrow> f32" where
  "fadd NaN _ = NaN"
| "fadd _ NaN = NaN"
| "fadd (Fin a) (Fin b) = round32 (a + b)"
| "fadd (Fin a) PInf = PInf"
| "fadd (Fin a) NInf = NInf"
| "fadd PInf (Fin b) = PInf"
| "fadd NInf (Fin b) = NInf"
| "fadd PInf PInf = PInf"
| "fadd PInf NInf = NaN"
| "fadd NInf PInf = NaN"
| "fadd NInf NInf = NInf"

fun fdiv :: "f32 \<Rightarrow> f32 \<Rightarrow> f32" where
  "fdiv NaN _ = NaN"
| "fdiv _ NaN = NaN"
| "fdiv (Fin a) (Fin b) =
     (if b = 0 then (if a = 0 then NaN else if 0 < a then PInf else NInf) else round32 (a / b))"
| "fdiv (Fin a) PInf = Fin 0"
| "fdiv (Fin a) NInf = Fin 0"
| "fdiv PInf (Fin b) = (if 0 \<le> b then PInf else NInf)"
| "fdiv NInf (Fin b) = (if 0 \<le> b then NInf else PInf)"
| "fdiv PInf PInf = NaN"
| "fdiv PInf NInf = NaN"
| "fdiv NInf PInf = NaN"
| "fdiv NInf NInf = NaN"

fun fsqrt :: "f32 \<Rightarrow> f32" where
  "fsqrt NaN = NaN"
| "fsqrt (Fin a) = (if a < 0 then NaN else round32 (sqrt a))"
| "fsqrt PInf = PInf"
| "fsqrt NInf = NaN"

text \<open>The comparison \<^verbatim>\<open>a > b\<close>; it is false when an operand is NaN.\<close>

fun fgt :: "f32 \<Rightarrow> f32 \<Rightarrow> bool" where
  "fgt NaN _ = False"
| "fgt _ NaN = False"
| "fgt (Fin a) (Fin b) = (a > b)"
| "fgt (Fin a) PInf = False"
| "fgt (Fin a) NInf = True"
| "fgt PInf (Fin b) = True"
| "fgt NInf (Fin b) = False"
| "fgt PInf PInf = False"
| "fgt PInf NInf = True"
| "fgt NInf PInf = False"
| "fgt NInf NInf = False"

record Vec3f =
  f32_x :: f32
  f32_y :: f32
  f32_z :: f32

definition dot_f32 :: "Vec3f \<Rightarrow> Vec3f \<Rightarrow> f32" where
  "dot_f32 a b =
     fadd (fadd (fmul (f32_x a) (f32_x b)) (fmul (f32_y a) (f32_y b))) (fmul (f32_z a) (f32_z b))"

text \<open>
  \<open>normalize\<close> (lines 22 to 25) in binary32. A division by zero, if the function made
  one, would be the value \<open>None\<close>.
\<close>

definition fdiv_checked :: "f32 \<Rightarrow> f32 \<Rightarrow> f32 option" where
  "fdiv_checked a b = (if b = Fin 0 then None else Some (fdiv a b))"

definition normalize_f32 :: "Vec3f \<Rightarrow> Vec3f option" where
  "normalize_f32 v =
     (let m = fsqrt (dot_f32 v v)
      in if fgt m (Fin 0) then
           (case fdiv_checked (f32_x v) m of None \<Rightarrow> None | Some a \<Rightarrow>
            (case fdiv_checked (f32_y v) m of None \<Rightarrow> None | Some b \<Rightarrow>
             (case fdiv_checked (f32_z v) m of None \<Rightarrow> None | Some c \<Rightarrow>
                Some \<lparr>f32_x = a, f32_y = b, f32_z = c\<rparr>)))
         else Some \<lparr>f32_x = Fin 0, f32_y = Fin 0, f32_z = Fin 0\<rparr>)"

subsection \<open>The depth-composited character buffer (lines 27 to 41)\<close>

record FrameBuffer =
  fb_w :: int
  fb_h :: int
  fb_chars :: "char list"
  fb_depth :: "real list"

text \<open>The depth every cell is reset to, \<^verbatim>\<open>-1e9f\<close>, a float that is exactly this integer.\<close>

definition sentinel :: real where
  "sentinel = - 1000000000"

definition blank :: char where
  "blank = CHR '' ''"

text \<open>The constructor; both vectors get \<^verbatim>\<open>W*H\<close> elements (for \<open>W * H\<close> not negative;
  the program only builds buffers of positive width and height).\<close>

definition FrameBuffer_new :: "int \<Rightarrow> int \<Rightarrow> FrameBuffer" where
  "FrameBuffer_new W H =
     \<lparr>fb_w = W, fb_h = H, fb_chars = replicate (nat (W * H)) blank,
      fb_depth = replicate (nat (W * H)) sentinel\<rparr>"

definition clear :: "FrameBuffer \<Rightarrow> FrameBuffer" where
  "clear fb = fb\<lparr>fb_chars := replicate (length (fb_chars fb)) blank,
                 fb_depth := replicate (length (fb_depth fb)) sentinel\<rparr>"

text \<open>
  \<^verbatim>\<open>FrameBuffer::set\<close>. It checks no bounds: it reads \<^verbatim>\<open>depth[idx]\<close> and, when the
  new value is larger, writes \<^verbatim>\<open>depth[idx]\<close> and \<^verbatim>\<open>chars[idx]\<close>.
\<close>

definition set_fb :: "FrameBuffer \<Rightarrow> int \<Rightarrow> int \<Rightarrow> real \<Rightarrow> char \<Rightarrow> FrameBuffer option" where
  "set_fb fb x y invZ c =
     (let idx = y * fb_w fb + x
      in if idx < 0 \<or> int (length (fb_depth fb)) \<le> idx then None
         else if invZ > fb_depth fb ! nat idx then
           (if int (length (fb_chars fb)) \<le> idx then None
            else Some (fb\<lparr>fb_depth := (fb_depth fb)[nat idx := invZ],
                         fb_chars := (fb_chars fb)[nat idx := c]\<rparr>))
         else Some fb)"

definition get_fb :: "FrameBuffer \<Rightarrow> int \<Rightarrow> int \<Rightarrow> char option" where
  "get_fb fb x y =
     (let idx = y * fb_w fb + x
      in if idx < 0 \<or> int (length (fb_chars fb)) \<le> idx then None
         else Some (fb_chars fb ! nat idx))"

text \<open>What the constructor establishes and every operation keeps.\<close>

definition wf_fb :: "FrameBuffer \<Rightarrow> bool" where
  "wf_fb fb \<longleftrightarrow> 0 < fb_w fb \<and> 0 < fb_h fb
     \<and> length (fb_chars fb) = nat (fb_w fb * fb_h fb)
     \<and> length (fb_depth fb) = nat (fb_w fb * fb_h fb)"

definition in_bounds :: "FrameBuffer \<Rightarrow> int \<Rightarrow> int \<Rightarrow> bool" where
  "in_bounds fb x y \<longleftrightarrow> \<not> (x < 0 \<or> x \<ge> fb_w fb \<or> y < 0 \<or> y \<ge> fb_h fb)"

subsection \<open>The surface rasterizer (lines 57 to 108)\<close>

definition R_major :: real where "R_major = 1"
definition R_minor :: real where "R_minor = 1 / 2"
definition K2 :: real where "K2 = 3"
definition xCellAspect :: real where "xCellAspect = 2"
definition dTheta :: real where "dTheta = 7 / 100"
definition dPhi :: real where "dPhi = 2 / 100"

definition K1 :: "FrameBuffer \<Rightarrow> real" where
  "K1 fb = 3 / 4 * std_min (real_of_int (fb_h fb)) (real_of_int (fb_w fb) / 2)"

definition light :: Vec3 where
  "light = normalize_vec \<lparr>vec_x = - 1 / 2, vec_y = 1 / 2, vec_z = - 1\<rparr>"

definition shades :: string where
  "shades = '' .:-=+*#%@''"

definition shadeMax :: int where
  "shadeMax = int (length shades) - 1"

text \<open>The locals of the loop body, each as a function of the angles.\<close>

definition pObj :: "real \<Rightarrow> real \<Rightarrow> Vec3" where
  "pObj theta phi =
     (let ct = cos theta; st = sin theta; cp = cos phi; sp = sin phi;
          circle = R_major + R_minor * ct
      in \<lparr>vec_x = circle * cp, vec_y = circle * sp, vec_z = R_minor * st\<rparr>)"

definition nObj :: "real \<Rightarrow> real \<Rightarrow> Vec3" where
  "nObj theta phi =
     (let ct = cos theta; st = sin theta; cp = cos phi; sp = sin phi
      in \<lparr>vec_x = R_minor * ct * cp, vec_y = R_minor * ct * sp, vec_z = R_minor * st\<rparr>)"

definition p_rot :: "real \<Rightarrow> real \<Rightarrow> real \<Rightarrow> real \<Rightarrow> Vec3" where
  "p_rot Ax Ay theta phi = rotateY (rotateX (pObj theta phi) Ax) Ay"

definition n_rot :: "real \<Rightarrow> real \<Rightarrow> real \<Rightarrow> real \<Rightarrow> Vec3" where
  "n_rot Ax Ay theta phi = normalize_vec (rotateY (rotateX (nObj theta phi) Ax) Ay)"

definition denom :: "real \<Rightarrow> real \<Rightarrow> real \<Rightarrow> real \<Rightarrow> real" where
  "denom Ax Ay theta phi = K2 + vec_z (p_rot Ax Ay theta phi)"

definition invZ :: "real \<Rightarrow> real \<Rightarrow> real \<Rightarrow> real \<Rightarrow> real" where
  "invZ Ax Ay theta phi = 1 / denom Ax Ay theta phi"

definition x_proj :: "real \<Rightarrow> real \<Rightarrow> real \<Rightarrow> real \<Rightarrow> real" where
  "x_proj Ax Ay theta phi = vec_x (p_rot Ax Ay theta phi) * invZ Ax Ay theta phi"

definition y_proj :: "real \<Rightarrow> real \<Rightarrow> real \<Rightarrow> real \<Rightarrow> real" where
  "y_proj Ax Ay theta phi = vec_y (p_rot Ax Ay theta phi) * invZ Ax Ay theta phi"

text \<open>The two float expressions that are cast to the cell coordinates (lines 95, 96).\<close>

definition x_float :: "FrameBuffer \<Rightarrow> real \<Rightarrow> real \<Rightarrow> real \<Rightarrow> real \<Rightarrow> real" where
  "x_float fb Ax Ay theta phi =
     real_of_int (fb_w fb) * (1 / 2) + K1 fb * xCellAspect * x_proj Ax Ay theta phi"

definition y_float :: "FrameBuffer \<Rightarrow> real \<Rightarrow> real \<Rightarrow> real \<Rightarrow> real \<Rightarrow> real" where
  "y_float fb Ax Ay theta phi =
     real_of_int (fb_h fb) * (1 / 2) - K1 fb * y_proj Ax Ay theta phi"

definition cell_x :: "FrameBuffer \<Rightarrow> real \<Rightarrow> real \<Rightarrow> real \<Rightarrow> real \<Rightarrow> int" where
  "cell_x fb Ax Ay theta phi = to_int (x_float fb Ax Ay theta phi)"

definition cell_y :: "FrameBuffer \<Rightarrow> real \<Rightarrow> real \<Rightarrow> real \<Rightarrow> real \<Rightarrow> int" where
  "cell_y fb Ax Ay theta phi = to_int (y_float fb Ax Ay theta phi)"

text \<open>Lambert lighting and the quantisation onto the ramp (lines 101 to 103).\<close>

definition lum_of :: "real \<Rightarrow> real" where
  "lum_of d = std_max 0 d"

definition shadeIdx_of :: "real \<Rightarrow> int" where
  "shadeIdx_of l = std_clamp (to_int (l * real_of_int shadeMax)) 0 shadeMax"

definition lum :: "real \<Rightarrow> real \<Rightarrow> real \<Rightarrow> real \<Rightarrow> real" where
  "lum Ax Ay theta phi = lum_of (dot (n_rot Ax Ay theta phi) light)"

definition shadeIdx :: "real \<Rightarrow> real \<Rightarrow> real \<Rightarrow> real \<Rightarrow> int" where
  "shadeIdx Ax Ay theta phi = shadeIdx_of (lum Ax Ay theta phi)"

definition ch :: "real \<Rightarrow> real \<Rightarrow> real \<Rightarrow> real \<Rightarrow> char" where
  "ch Ax Ay theta phi = shades ! nat (shadeIdx Ax Ay theta phi)"

text \<open>One pass of the inner loop body: the bounds test of line 98, then the write.\<close>

definition body :: "FrameBuffer \<Rightarrow> real \<Rightarrow> real \<Rightarrow> real \<Rightarrow> real \<Rightarrow> FrameBuffer option" where
  "body fb Ax Ay theta phi =
     (let x = cell_x fb Ax Ay theta phi; y = cell_y fb Ax Ay theta phi
      in if x < 0 \<or> x \<ge> fb_w fb \<or> y < 0 \<or> y \<ge> fb_h fb then Some fb
         else set_fb fb x y (invZ Ax Ay theta phi) (ch Ax Ay theta phi))"

function phi_loop :: "FrameBuffer \<Rightarrow> real \<Rightarrow> real \<Rightarrow> real \<Rightarrow> real \<Rightarrow> FrameBuffer option" where
  "phi_loop fb Ax Ay theta phi =
     (if phi < 2 * pi then
        (case body fb Ax Ay theta phi of
           None \<Rightarrow> None
         | Some fb' \<Rightarrow> phi_loop fb' Ax Ay theta (phi + dPhi))
      else Some fb)"
  by pat_completeness auto

text \<open>The loops add a positive step to the angle until it reaches \<open>2 * pi\<close>.\<close>

lemma loop_step:
  fixes t d :: real
  assumes "0 < d" "t < 2 * pi"
  shows "nat \<lceil>(2 * pi - (t + d)) / d\<rceil> < nat \<lceil>(2 * pi - t) / d\<rceil>"
proof -
  have e: "(2 * pi - (t + d)) / d = (2 * pi - t) / d - 1"
    using assms by (simp add: field_simps)
  have "0 < (2 * pi - t) / d" using assms by simp
  then have "0 < \<lceil>(2 * pi - t) / d\<rceil>" by (simp only: zero_less_ceiling)
  then show ?thesis unfolding e ceiling_diff_one by linarith
qed

lemma dPhi_pos: "0 < dPhi"
  by (simp add: dPhi_def)

lemma dTheta_pos: "0 < dTheta"
  by (simp add: dTheta_def)

termination phi_loop
  apply (relation "measure (\<lambda>(fb, Ax, Ay, theta, phi). nat \<lceil>(2 * pi - phi) / dPhi\<rceil>)")
   apply (rule wf_measure)
  apply (simp only: in_measure prod.case loop_step [OF dPhi_pos])
  done

function theta_loop :: "FrameBuffer \<Rightarrow> real \<Rightarrow> real \<Rightarrow> real \<Rightarrow> FrameBuffer option" where
  "theta_loop fb Ax Ay theta =
     (if theta < 2 * pi then
        (case phi_loop fb Ax Ay theta 0 of
           None \<Rightarrow> None
         | Some fb' \<Rightarrow> theta_loop fb' Ax Ay (theta + dTheta))
      else Some fb)"
  by pat_completeness auto

termination theta_loop
  apply (relation "measure (\<lambda>(fb, Ax, Ay, theta). nat \<lceil>(2 * pi - theta) / dTheta\<rceil>)")
   apply (rule wf_measure)
  apply (simp only: in_measure prod.case loop_step [OF dTheta_pos])
  done

declare phi_loop.simps [simp del] theta_loop.simps [simp del]

definition renderTorus :: "FrameBuffer \<Rightarrow> real \<Rightarrow> real \<Rightarrow> FrameBuffer option" where
  "renderTorus fb Ax Ay = theta_loop (clear fb) Ax Ay 0"

subsection \<open>The display compositor (lines 110 to 138)\<close>

text \<open>C++ integer division truncates toward zero.\<close>

definition c_div :: "int \<Rightarrow> int \<Rightarrow> int" where
  "c_div a b = sgn a * sgn b * (\<bar>a\<bar> div \<bar>b\<bar>)"

definition blit_s :: "FrameBuffer \<Rightarrow> int \<Rightarrow> int \<Rightarrow> real" where
  "blit_s fb rows cols =
     (let sx = real_of_int cols / real_of_int (fb_w fb);
          sy = real_of_int rows / real_of_int (fb_h fb)
      in std_max sx sy)"

definition blit_invS :: "FrameBuffer \<Rightarrow> int \<Rightarrow> int \<Rightarrow> real" where
  "blit_invS fb rows cols = 1 / blit_s fb rows cols"

definition viewW :: "FrameBuffer \<Rightarrow> int \<Rightarrow> int \<Rightarrow> int" where
  "viewW fb rows cols = std_max 1 (to_int (std_round (real_of_int cols * blit_invS fb rows cols)))"

definition viewH :: "FrameBuffer \<Rightarrow> int \<Rightarrow> int \<Rightarrow> int" where
  "viewH fb rows cols = std_max 1 (to_int (std_round (real_of_int rows * blit_invS fb rows cols)))"

definition blit_x0 :: "FrameBuffer \<Rightarrow> int \<Rightarrow> int \<Rightarrow> int" where
  "blit_x0 fb rows cols = c_div (fb_w fb - viewW fb rows cols) 2"

definition blit_y0 :: "FrameBuffer \<Rightarrow> int \<Rightarrow> int \<Rightarrow> int" where
  "blit_y0 fb rows cols = c_div (fb_h fb - viewH fb rows cols) 2"

definition blit_vy :: "FrameBuffer \<Rightarrow> int \<Rightarrow> int \<Rightarrow> int \<Rightarrow> int" where
  "blit_vy fb rows cols y =
     std_clamp (blit_y0 fb rows cols + to_int (real_of_int y * blit_invS fb rows cols)) 0 (fb_h fb - 1)"

definition blit_vx :: "FrameBuffer \<Rightarrow> int \<Rightarrow> int \<Rightarrow> int \<Rightarrow> int" where
  "blit_vx fb rows cols x =
     std_clamp (blit_x0 fb rows cols + to_int (real_of_int x * blit_invS fb rows cols)) 0 (fb_w fb - 1)"

text \<open>
  The character \<^verbatim>\<open>mvaddch(y, x, c ? c : ' ')\<close> puts at terminal cell \<open>(y, x)\<close>;
  \<open>None\<close> when the read is out of range.
\<close>

definition blit_cell :: "FrameBuffer \<Rightarrow> int \<Rightarrow> int \<Rightarrow> int \<Rightarrow> int \<Rightarrow> char option" where
  "blit_cell fb rows cols y x =
     (case get_fb fb (blit_vx fb rows cols x) (blit_vy fb rows cols y) of
        None \<Rightarrow> None
      | Some c \<Rightarrow> Some (if c \<noteq> CHR 0x00 then c else CHR '' ''))"

text \<open>
  The terminal after the two loops, as the list of its rows. The value is \<open>None\<close> when a
  read is out of range, and when a division by zero (a buffer with no column or no row,
  a scale of zero) yields a float that is not finite, which the model does not follow.
\<close>

definition blitVirtualToCurses :: "FrameBuffer \<Rightarrow> int \<Rightarrow> int \<Rightarrow> char list list option" where
  "blitVirtualToCurses fb rows cols =
     (if fb_w fb = 0 \<or> fb_h fb = 0 \<or> blit_s fb rows cols = 0 then None
      else those (map (\<lambda>y. those (map (\<lambda>x. blit_cell fb rows cols y x) [0 .. cols - 1]))
                   [0 .. rows - 1]))"

section \<open>Notions used to state the properties\<close>

subsection \<open>The buffer contract as the spec words it\<close>

text \<open>
  The spec's \<open>depthTestedWrite(x, y, inverseDepth, glyph)\<close>: if \<open>(x, y)\<close> is in bounds
  and \<open>inverseDepth\<close> exceeds the cell's currently stored depth, overwrite both glyph
  and depth; otherwise no-op. It is compared below with what the code does.
\<close>

definition spec_depthTestedWrite :: "FrameBuffer \<Rightarrow> int \<Rightarrow> int \<Rightarrow> real \<Rightarrow> char \<Rightarrow> FrameBuffer" where
  "spec_depthTestedWrite fb x y inverseDepth glyph =
     (if in_bounds fb x y \<and> inverseDepth > fb_depth fb ! nat (y * fb_w fb + x)
      then fb\<lparr>fb_depth := (fb_depth fb)[nat (y * fb_w fb + x) := inverseDepth],
              fb_chars := (fb_chars fb)[nat (y * fb_w fb + x) := glyph]\<rparr>
      else fb)"

subsection \<open>The samples of a frame, in the order the loops visit them\<close>

text \<open>
  The values the loop variables \<open>phi\<close> and \<open>theta\<close> take from a given start, and
  the pairs \<open>(theta, phi)\<close> the nested loops pass to the loop body.
\<close>

function phi_angles :: "real \<Rightarrow> real list" where
  "phi_angles phi = (if phi < 2 * pi then phi # phi_angles (phi + dPhi) else [])"
  by pat_completeness auto

termination phi_angles
  apply (relation "measure (\<lambda>phi. nat \<lceil>(2 * pi - phi) / dPhi\<rceil>)")
   apply (rule wf_measure)
  apply (simp only: in_measure loop_step [OF dPhi_pos])
  done

function theta_angles :: "real \<Rightarrow> real list" where
  "theta_angles theta = (if theta < 2 * pi then theta # theta_angles (theta + dTheta) else [])"
  by pat_completeness auto

termination theta_angles
  apply (relation "measure (\<lambda>theta. nat \<lceil>(2 * pi - theta) / dTheta\<rceil>)")
   apply (rule wf_measure)
  apply (simp only: in_measure loop_step [OF dTheta_pos])
  done

declare phi_angles.simps [simp del] theta_angles.simps [simp del]

definition samples_from :: "real \<Rightarrow> (real \<times> real) list" where
  "samples_from theta = concat (map (\<lambda>t. map (Pair t) (phi_angles 0)) (theta_angles theta))"

definition frame_samples :: "(real \<times> real) list" where
  "frame_samples = samples_from 0"

text \<open>The loop body run over a list of samples.\<close>

fun plot_all :: "FrameBuffer \<Rightarrow> real \<Rightarrow> real \<Rightarrow> (real \<times> real) list \<Rightarrow> FrameBuffer option" where
  "plot_all fb Ax Ay [] = Some fb"
| "plot_all fb Ax Ay (s # ss) =
     (case body fb Ax Ay (fst s) (snd s) of None \<Rightarrow> None | Some fb' \<Rightarrow> plot_all fb' Ax Ay ss)"

text \<open>
  The samples of a list that map to the cell \<open>(cx, cy)\<close>, and the inverse depth the spec
  says the cell holds after they were written into a cleared buffer: the maximum of their
  inverse depths, the sentinel if there is none.
\<close>

definition hits :: "FrameBuffer \<Rightarrow> real \<Rightarrow> real \<Rightarrow> int \<Rightarrow> int \<Rightarrow> (real \<times> real) list \<Rightarrow> (real \<times> real) list" where
  "hits fb Ax Ay cx cy ss =
     filter (\<lambda>s. cell_x fb Ax Ay (fst s) (snd s) = cx \<and> cell_y fb Ax Ay (fst s) (snd s) = cy) ss"

definition spec_cell_depth :: "real \<Rightarrow> real \<Rightarrow> (real \<times> real) list \<Rightarrow> real" where
  "spec_cell_depth Ax Ay hs =
     (if hs = [] then sentinel else Max (set (map (\<lambda>s. invZ Ax Ay (fst s) (snd s)) hs)))"

text \<open>The depth and the glyph a buffer holds at a cell.\<close>

definition cell_at :: "FrameBuffer \<Rightarrow> int \<Rightarrow> int \<Rightarrow> real \<times> char" where
  "cell_at fb cx cy =
     (fb_depth fb ! nat (cy * fb_w fb + cx), fb_chars fb ! nat (cy * fb_w fb + cx))"

text \<open>The depth test run over the (depth, glyph) pairs that reach one cell.\<close>

fun cell_fold :: "real \<times> char \<Rightarrow> (real \<times> char) list \<Rightarrow> real \<times> char" where
  "cell_fold cur [] = cur"
| "cell_fold cur (h # hs) = cell_fold (if fst h > fst cur then h else cur) hs"

definition sample_write :: "real \<Rightarrow> real \<Rightarrow> real \<times> real \<Rightarrow> real \<times> char" where
  "sample_write Ax Ay s = (invZ Ax Ay (fst s) (snd s), ch Ax Ay (fst s) (snd s))"

section \<open>Properties\<close>

subsection \<open>Vector math\<close>

lemma normalize_unit:
  assumes "sqrt (dot v v) \<noteq> 0"
  shows "sqrt (dot (normalize_vec v) (normalize_vec v)) = 1"
proof -
  let ?m = "sqrt (dot v v)"
  have nn: "0 \<le> dot v v" by (simp add: dot_def)
  then have pos: "0 < ?m" using assms by (simp add: less_le)
  have sq: "?m * ?m = dot v v" using nn by simp
  have n: "normalize_vec v = \<lparr>vec_x = vec_x v / ?m, vec_y = vec_y v / ?m, vec_z = vec_z v / ?m\<rparr>"
    using pos by (simp add: normalize_vec_def Let_def)
  have "dot (normalize_vec v) (normalize_vec v) = dot v v / (?m * ?m)"
    unfolding n by (simp add: dot_def add_divide_distrib del: real_sqrt_mult_self)
  also have "\<dots> = 1" using pos sq by simp
  finally show ?thesis by simp
qed

text \<open>The function in exact arithmetic: no zero divisor, unit length or the zero vector.\<close>

lemma normalize_vec_exact:
  "normalize_checked v = Some (normalize_vec v)
   \<and> (sqrt (dot v v) \<noteq> 0 \<longrightarrow>
        normalize_vec v = \<lparr>vec_x = vec_x v / sqrt (dot v v), vec_y = vec_y v / sqrt (dot v v),
                       vec_z = vec_z v / sqrt (dot v v)\<rparr>
        \<and> sqrt (dot (normalize_vec v) (normalize_vec v)) = 1)
   \<and> (sqrt (dot v v) = 0 \<longrightarrow> normalize_vec v = \<lparr>vec_x = 0, vec_y = 0, vec_z = 0\<rparr>)"
proof -
  have nn: "0 \<le> dot v v" by (simp add: dot_def)
  have a: "normalize_checked v = Some (normalize_vec v)"
    by (simp add: normalize_checked_def normalize_vec_def checked_div_def Let_def)
  have b: "sqrt (dot v v) \<noteq> 0 \<longrightarrow>
        normalize_vec v = \<lparr>vec_x = vec_x v / sqrt (dot v v), vec_y = vec_y v / sqrt (dot v v),
                       vec_z = vec_z v / sqrt (dot v v)\<rparr>"
    using nn by (simp add: normalize_vec_def Let_def less_le)
  have c: "sqrt (dot v v) = 0 \<longrightarrow> normalize_vec v = \<lparr>vec_x = 0, vec_y = 0, vec_z = 0\<rparr>"
    by (simp add: normalize_vec_def Let_def)
  show ?thesis using a b c normalize_unit by blast
qed

lemma fgt_zero_not_zero: "fgt m (Fin 0) \<Longrightarrow> m \<noteq> Fin 0"
  by (cases m) simp_all

lemma normalize_f32_eq:
  "normalize_f32 v =
     Some (if fgt (fsqrt (dot_f32 v v)) (Fin 0)
           then \<lparr>f32_x = fdiv (f32_x v) (fsqrt (dot_f32 v v)),
                 f32_y = fdiv (f32_y v) (fsqrt (dot_f32 v v)),
                 f32_z = fdiv (f32_z v) (fsqrt (dot_f32 v v))\<rparr>
           else \<lparr>f32_x = Fin 0, f32_y = Fin 0, f32_z = Fin 0\<rparr>)"
  using fgt_zero_not_zero [of "fsqrt (dot_f32 v v)"]
  by (simp add: normalize_f32_def fdiv_checked_def Let_def)

lemma round32_zero: "round32 0 = Fin 0"
  by (simp add: round32_def f32_overflow_def)

lemma log2_power: "log 2 (2 ^ n) = real n"
  using log_pow_cancel [of 2 n] by simp

lemma overflow_example:
  fixes B :: real
  assumes "B = 2 ^ 100"
  shows "round32 B = Fin B"
    and "dot_f32 \<lparr>f32_x = Fin B, f32_y = Fin 0, f32_z = Fin 0\<rparr>
                 \<lparr>f32_x = Fin B, f32_y = Fin 0, f32_z = Fin 0\<rparr> = PInf"
proof -
  have pos: "0 < B" "B \<noteq> 0" using assms by simp_all
  have l: "log 2 B = 100" unfolding assms using log2_power [of 100] by simp
  have q: "quantum B = 2 ^ 77" using pos by (simp add: quantum_def l)
  have d: "B / 2 ^ 77 = 2 ^ 23" unfolding assms by simp
  have r: "rne (2 ^ 23) = 2 ^ 23" by (simp add: rne_def)
  have b: "B = 2 ^ 23 * 2 ^ 77" unfolding assms by simp
  have small: "\<not> f32_overflow \<le> B" "\<not> B \<le> - f32_overflow"
    unfolding assms by (simp_all add: f32_overflow_def)
  show "round32 B = Fin B"
    using small pos unfolding round32_def q d r by (simp add: b)
  have big: "f32_overflow \<le> B * B" unfolding assms by (simp add: f32_overflow_def)
  then have "round32 (B * B) = PInf" by (simp add: round32_def)
  then show "dot_f32 \<lparr>f32_x = Fin B, f32_y = Fin 0, f32_z = Fin 0\<rparr>
                 \<lparr>f32_x = Fin B, f32_y = Fin 0, f32_z = Fin 0\<rparr> = PInf"
    by (simp add: dot_f32_def round32_zero)
qed

text \<open>
  C8, as the claim states it, fails in binary32: the vector \<open>(2^100, 0, 0)\<close>, a binary32
  number of nonzero magnitude (about \<open>1.27e30\<close>), has \<open>dot(v, v) = 2^200\<close>, which
  overflows to infinity; the magnitude is infinite, the test \<open>m > 0\<close> passes, and every
  component divided by infinity is 0: the result is the zero vector, of length 0.
\<close>

theorem normalize_f32_overflow:
  "round32 (2 ^ 100) = Fin (2 ^ 100)
   \<and> fsqrt (dot_f32 \<lparr>f32_x = Fin (2 ^ 100), f32_y = Fin 0, f32_z = Fin 0\<rparr>
                     \<lparr>f32_x = Fin (2 ^ 100), f32_y = Fin 0, f32_z = Fin 0\<rparr>) = PInf
   \<and> normalize_f32 \<lparr>f32_x = Fin (2 ^ 100), f32_y = Fin 0, f32_z = Fin 0\<rparr>
       = Some \<lparr>f32_x = Fin 0, f32_y = Fin 0, f32_z = Fin 0\<rparr>
   \<and> fsqrt (dot_f32 \<lparr>f32_x = Fin 0, f32_y = Fin 0, f32_z = Fin 0\<rparr>
                     \<lparr>f32_x = Fin 0, f32_y = Fin 0, f32_z = Fin 0\<rparr>) = Fin 0"
proof -
  define B :: real where "B = 2 ^ 100"
  have a: "round32 B = Fin B" using B_def by (rule overflow_example(1))
  have d: "dot_f32 \<lparr>f32_x = Fin B, f32_y = Fin 0, f32_z = Fin 0\<rparr>
                   \<lparr>f32_x = Fin B, f32_y = Fin 0, f32_z = Fin 0\<rparr> = PInf"
    using B_def by (rule overflow_example(2))
  have m: "fsqrt (dot_f32 \<lparr>f32_x = Fin B, f32_y = Fin 0, f32_z = Fin 0\<rparr>
                   \<lparr>f32_x = Fin B, f32_y = Fin 0, f32_z = Fin 0\<rparr>) = PInf"
    by (simp add: d)
  have n: "normalize_f32 \<lparr>f32_x = Fin B, f32_y = Fin 0, f32_z = Fin 0\<rparr>
       = Some \<lparr>f32_x = Fin 0, f32_y = Fin 0, f32_z = Fin 0\<rparr>"
    by (simp add: normalize_f32_eq m)
  have z: "fsqrt (dot_f32 \<lparr>f32_x = Fin 0, f32_y = Fin 0, f32_z = Fin 0\<rparr>
                     \<lparr>f32_x = Fin 0, f32_y = Fin 0, f32_z = Fin 0\<rparr>) = Fin 0"
    by (simp add: dot_f32_def round32_zero)
  show ?thesis using a m n z unfolding B_def by blast
qed

lemma round32_small:
  "round32 1 = Fin 1 \<and> round32 2 = Fin 2 \<and> round32 4 = Fin 4"
proof -
  have l: "log 2 2 = 1" "log 2 4 = 2" using log2_power [of 1] log2_power [of 2] by simp_all
  have q: "quantum 1 = 1 / 2 ^ 23" "quantum 2 = 1 / 2 ^ 22" "quantum 4 = 1 / 2 ^ 21"
    by (simp_all add: quantum_def l power_int_minus)
  show ?thesis by (simp add: round32_def f32_overflow_def q rne_def)
qed

lemma normalize_f32_axis:
  "fsqrt (dot_f32 \<lparr>f32_x = Fin 2, f32_y = Fin 0, f32_z = Fin 0\<rparr>
                   \<lparr>f32_x = Fin 2, f32_y = Fin 0, f32_z = Fin 0\<rparr>) = Fin 2
   \<and> fdiv (Fin 2) (Fin 2) = Fin 1 \<and> fdiv (Fin 0) (Fin 2) = Fin 0"
  by (simp add: dot_f32_def round32_small round32_zero)

text \<open>
  C8, amended. For every vector, \<open>normalize\<close> performs no division by zero: it divides
  only when the computed magnitude \<open>m = sqrt(dot(v, v))\<close> is greater than 0, and then
  returns \<open>(v.x/m, v.y/m, v.z/m)\<close>; otherwise, and so when \<open>m\<close> is zero, it returns the
  zero vector. In exact arithmetic \<open>(v.x/m, v.y/m, v.z/m)\<close> is \<open>v\<close> scaled to unit
  length. In binary32 it need not be: when \<open>dot(v, v)\<close> overflows, \<open>m\<close> is infinite and
  a finite \<open>v\<close> gives the zero vector.
\<close>

theorem normalize_guarded:
  "(\<exists>n. normalize_f32 v = Some n)
   \<and> (fgt (fsqrt (dot_f32 v v)) (Fin 0) \<longrightarrow>
        fsqrt (dot_f32 v v) \<noteq> Fin 0
        \<and> normalize_f32 v = Some \<lparr>f32_x = fdiv (f32_x v) (fsqrt (dot_f32 v v)),
                                   f32_y = fdiv (f32_y v) (fsqrt (dot_f32 v v)),
                                   f32_z = fdiv (f32_z v) (fsqrt (dot_f32 v v))\<rparr>)
   \<and> (\<not> fgt (fsqrt (dot_f32 v v)) (Fin 0) \<longrightarrow>
        normalize_f32 v = Some \<lparr>f32_x = Fin 0, f32_y = Fin 0, f32_z = Fin 0\<rparr>)
   \<and> (fsqrt (dot_f32 v v) = Fin 0 \<longrightarrow>
        normalize_f32 v = Some \<lparr>f32_x = Fin 0, f32_y = Fin 0, f32_z = Fin 0\<rparr>)
   \<and> (fsqrt (dot_f32 v v) = PInf \<and> f32_x v = Fin a \<and> f32_y v = Fin b \<and> f32_z v = Fin c \<longrightarrow>
        normalize_f32 v = Some \<lparr>f32_x = Fin 0, f32_y = Fin 0, f32_z = Fin 0\<rparr>)
   \<and> normalize_checked u = Some (normalize_vec u)
   \<and> (sqrt (dot u u) \<noteq> 0 \<longrightarrow>
        normalize_vec u = \<lparr>vec_x = vec_x u / sqrt (dot u u), vec_y = vec_y u / sqrt (dot u u),
                           vec_z = vec_z u / sqrt (dot u u)\<rparr>
        \<and> sqrt (dot (normalize_vec u) (normalize_vec u)) = 1)
   \<and> (sqrt (dot u u) = 0 \<longrightarrow> normalize_vec u = \<lparr>vec_x = 0, vec_y = 0, vec_z = 0\<rparr>)"
proof -
  let ?m = "fsqrt (dot_f32 v v)"
  have f1: "\<exists>n. normalize_f32 v = Some n" by (simp add: normalize_f32_eq)
  have f2: "fgt ?m (Fin 0) \<longrightarrow> ?m \<noteq> Fin 0
        \<and> normalize_f32 v = Some \<lparr>f32_x = fdiv (f32_x v) ?m, f32_y = fdiv (f32_y v) ?m,
                                   f32_z = fdiv (f32_z v) ?m\<rparr>"
    using fgt_zero_not_zero [of ?m] by (simp add: normalize_f32_eq)
  have f3: "\<not> fgt ?m (Fin 0) \<longrightarrow>
        normalize_f32 v = Some \<lparr>f32_x = Fin 0, f32_y = Fin 0, f32_z = Fin 0\<rparr>"
    by (simp add: normalize_f32_eq)
  have f4: "?m = Fin 0 \<longrightarrow> normalize_f32 v = Some \<lparr>f32_x = Fin 0, f32_y = Fin 0, f32_z = Fin 0\<rparr>"
    by (simp add: normalize_f32_eq)
  have f5: "?m = PInf \<and> f32_x v = Fin a \<and> f32_y v = Fin b \<and> f32_z v = Fin c \<longrightarrow>
        normalize_f32 v = Some \<lparr>f32_x = Fin 0, f32_y = Fin 0, f32_z = Fin 0\<rparr>"
    by (simp add: normalize_f32_eq)
  show ?thesis
    using f1 f2 f3 f4 f5 normalize_vec_exact [of u] by blast
qed

theorem normalize_guarded_witness:
  "fgt (fsqrt (dot_f32 \<lparr>f32_x = Fin 2, f32_y = Fin 0, f32_z = Fin 0\<rparr>
                       \<lparr>f32_x = Fin 2, f32_y = Fin 0, f32_z = Fin 0\<rparr>)) (Fin 0)
   \<and> normalize_f32 \<lparr>f32_x = Fin 2, f32_y = Fin 0, f32_z = Fin 0\<rparr>
       = Some \<lparr>f32_x = Fin 1, f32_y = Fin 0, f32_z = Fin 0\<rparr>
   \<and> fsqrt (dot_f32 \<lparr>f32_x = Fin 0, f32_y = Fin 0, f32_z = Fin 0\<rparr>
                     \<lparr>f32_x = Fin 0, f32_y = Fin 0, f32_z = Fin 0\<rparr>) = Fin 0
   \<and> \<not> fgt (Fin 0) (Fin 0)
   \<and> normalize_f32 \<lparr>f32_x = Fin 0, f32_y = Fin 0, f32_z = Fin 0\<rparr>
       = Some \<lparr>f32_x = Fin 0, f32_y = Fin 0, f32_z = Fin 0\<rparr>
   \<and> fsqrt (dot_f32 \<lparr>f32_x = Fin (2 ^ 100), f32_y = Fin 0, f32_z = Fin 0\<rparr>
                     \<lparr>f32_x = Fin (2 ^ 100), f32_y = Fin 0, f32_z = Fin 0\<rparr>) = PInf
   \<and> normalize_f32 \<lparr>f32_x = Fin (2 ^ 100), f32_y = Fin 0, f32_z = Fin 0\<rparr>
       = Some \<lparr>f32_x = Fin 0, f32_y = Fin 0, f32_z = Fin 0\<rparr>
   \<and> sqrt (dot \<lparr>vec_x = 3, vec_y = 0, vec_z = 4\<rparr> \<lparr>vec_x = 3, vec_y = 0, vec_z = 4\<rparr>) = 5
   \<and> normalize_checked \<lparr>vec_x = 3, vec_y = 0, vec_z = 4\<rparr> = Some \<lparr>vec_x = 3 / 5, vec_y = 0, vec_z = 4 / 5\<rparr>
   \<and> sqrt (dot \<lparr>vec_x = 3 / 5, vec_y = 0, vec_z = 4 / 5\<rparr> \<lparr>vec_x = 3 / 5, vec_y = 0, vec_z = 4 / 5\<rparr>) = 1
   \<and> sqrt (dot \<lparr>vec_x = 0, vec_y = 0, vec_z = 0\<rparr> \<lparr>vec_x = 0, vec_y = 0, vec_z = 0\<rparr>) = 0
   \<and> normalize_vec \<lparr>vec_x = 0, vec_y = 0, vec_z = 0\<rparr> = \<lparr>vec_x = 0, vec_y = 0, vec_z = 0\<rparr>"
proof -
  let ?v2 = "\<lparr>f32_x = Fin 2, f32_y = Fin 0, f32_z = Fin 0\<rparr>"
  let ?v0 = "\<lparr>f32_x = Fin 0, f32_y = Fin 0, f32_z = Fin 0\<rparr>"
  define B :: real where "B = 2 ^ 100"
  let ?vB = "\<lparr>f32_x = Fin B, f32_y = Fin 0, f32_z = Fin 0\<rparr>"
  have m2: "fsqrt (dot_f32 ?v2 ?v2) = Fin 2" using normalize_f32_axis by simp
  have g2: "fgt (fsqrt (dot_f32 ?v2 ?v2)) (Fin 0)" by (simp add: m2)
  have n2: "normalize_f32 ?v2 = Some \<lparr>f32_x = Fin 1, f32_y = Fin 0, f32_z = Fin 0\<rparr>"
    using normalize_guarded [of ?v2 0 0 0 "\<lparr>vec_x = 3, vec_y = 0, vec_z = 4\<rparr>"] g2
    by (simp add: m2 round32_small round32_zero)
  have m0: "fsqrt (dot_f32 ?v0 ?v0) = Fin 0" by (simp add: dot_f32_def round32_zero)
  have g0: "\<not> fgt (Fin 0) (Fin 0)" by simp
  have n0: "normalize_f32 ?v0 = Some ?v0"
    using normalize_guarded [of ?v0 0 0 0 "\<lparr>vec_x = 0, vec_y = 0, vec_z = 0\<rparr>"] m0 by simp
  have mB: "fsqrt (dot_f32 ?vB ?vB) = PInf" using overflow_example(2) [OF B_def] by simp
  have nB: "normalize_f32 ?vB = Some ?v0"
    using normalize_guarded [of ?vB B 0 0 "\<lparr>vec_x = 0, vec_y = 0, vec_z = 0\<rparr>"] mB by simp
  have m: "sqrt (dot \<lparr>vec_x = 3, vec_y = 0, vec_z = 4\<rparr> \<lparr>vec_x = 3, vec_y = 0, vec_z = 4\<rparr>) = 5"
    by (simp add: dot_def real_sqrt_unique)
  have z: "sqrt (dot \<lparr>vec_x = 0, vec_y = 0, vec_z = 0\<rparr> \<lparr>vec_x = 0, vec_y = 0, vec_z = 0\<rparr>) = 0"
    by (simp add: dot_def)
  from normalize_guarded [of ?v0 0 0 0 "\<lparr>vec_x = 3, vec_y = 0, vec_z = 4\<rparr>"] m
  have a: "normalize_checked \<lparr>vec_x = 3, vec_y = 0, vec_z = 4\<rparr> = Some \<lparr>vec_x = 3 / 5, vec_y = 0, vec_z = 4 / 5\<rparr>"
    and b: "sqrt (dot \<lparr>vec_x = 3 / 5, vec_y = 0, vec_z = 4 / 5\<rparr> \<lparr>vec_x = 3 / 5, vec_y = 0, vec_z = 4 / 5\<rparr>) = 1"
    by auto
  from normalize_guarded [of ?v0 0 0 0 "\<lparr>vec_x = 0, vec_y = 0, vec_z = 0\<rparr>"] z
  have c: "normalize_vec \<lparr>vec_x = 0, vec_y = 0, vec_z = 0\<rparr> = \<lparr>vec_x = 0, vec_y = 0, vec_z = 0\<rparr>"
    by simp
  show ?thesis using g2 n2 m0 g0 n0 mB nB m a b c z unfolding B_def by blast
qed

subsection \<open>Geometry of the samples\<close>

lemma rot_norm:
  fixes c s u v :: real
  assumes "c * c + s * s = 1"
  shows "(c * u - s * v) * (c * u - s * v) + (s * u + c * v) * (s * u + c * v) = u * u + v * v"
proof -
  have "(c * u - s * v) * (c * u - s * v) + (s * u + c * v) * (s * u + c * v)
      = (c * c + s * s) * (u * u + v * v)"
    by (simp add: algebra_simps)
  then show ?thesis using assms by simp
qed

lemma dot_rotateX: "dot (rotateX v a) (rotateX v a) = dot v v"
  using rot_norm [of "cos a" "sin a" "vec_y v" "vec_z v"]
  by (simp add: dot_def rotateX_def Let_def)

lemma dot_rotateY: "dot (rotateY v a) (rotateY v a) = dot v v"
  using rot_norm [of "cos a" "sin a" "vec_z v" "vec_x v"]
  by (simp add: dot_def rotateY_def Let_def add.commute)

lemma torus_norm:
  fixes ct st cp sp :: real
  assumes "ct * ct + st * st = 1" "cp * cp + sp * sp = 1"
  shows "(1 + 1 / 2 * ct) * cp * ((1 + 1 / 2 * ct) * cp) + (1 + 1 / 2 * ct) * sp * ((1 + 1 / 2 * ct) * sp)
       + 1 / 2 * st * (1 / 2 * st) = 5 / 4 + ct"
proof -
  have "(1 + 1 / 2 * ct) * cp * ((1 + 1 / 2 * ct) * cp) + (1 + 1 / 2 * ct) * sp * ((1 + 1 / 2 * ct) * sp)
       + 1 / 2 * st * (1 / 2 * st)
      = (1 + 1 / 2 * ct) * (1 + 1 / 2 * ct) * (cp * cp + sp * sp) + 1 / 4 * (st * st)"
    by (simp add: algebra_simps)
  also have "\<dots> = 1 + ct + 1 / 4 * (ct * ct + st * st)"
    unfolding assms(2) by (simp add: algebra_simps)
  finally show ?thesis unfolding assms(1) by simp
qed

lemma dot_pObj: "dot (pObj theta phi) (pObj theta phi) = 5 / 4 + cos theta"
  using torus_norm [of "cos theta" "sin theta" "cos phi" "sin phi"]
  by (simp add: dot_def pObj_def Let_def R_major_def R_minor_def)

lemma dot_p_rot: "dot (p_rot Ax Ay theta phi) (p_rot Ax Ay theta phi) \<le> 9 / 4"
proof -
  have "dot (p_rot Ax Ay theta phi) (p_rot Ax Ay theta phi) = 5 / 4 + cos theta"
    by (simp add: p_rot_def dot_rotateX dot_rotateY dot_pObj)
  moreover have "cos theta \<le> 1" by simp
  ultimately show ?thesis by linarith
qed

lemma vec_z_p_rot: "\<bar>vec_z (p_rot Ax Ay theta phi)\<bar> \<le> 3 / 2"
proof -
  let ?p = "p_rot Ax Ay theta phi"
  have "(vec_z ?p)\<^sup>2 \<le> dot ?p ?p"
    by (simp add: dot_def power2_eq_square)
  then have "(vec_z ?p)\<^sup>2 \<le> (3 / 2)\<^sup>2"
    using dot_p_rot [of Ax Ay theta phi] by (simp add: power2_eq_square)
  then show ?thesis
    by (simp add: abs_le_square_iff [symmetric])
qed

lemma denom_bounds: "3 / 2 \<le> denom Ax Ay theta phi \<and> denom Ax Ay theta phi \<le> 9 / 2"
  using vec_z_p_rot [of Ax Ay theta phi] by (simp add: denom_def K2_def abs_le_iff) linarith

lemma invZ_bounds: "2 / 9 \<le> invZ Ax Ay theta phi \<and> invZ Ax Ay theta phi \<le> 2 / 3"
  using denom_bounds [of Ax Ay theta phi]
  by (simp add: invZ_def field_simps)

lemma invZ_gt_sentinel: "sentinel < invZ Ax Ay theta phi"
  using invZ_bounds [of Ax Ay theta phi] by (simp add: sentinel_def)

text \<open>
  C4, as the claim states it, fails: the denominator is below the camera distance
  whenever the rotated point has a negative \<open>z\<close>. At \<open>Ax = 0\<close>, \<open>Ay = 1\<close> the first
  sample of the frame (\<open>theta = 0\<close>, \<open>phi = 0\<close>) has the denominator \<open>3 - 3 / 2 * sin 1\<close>.
\<close>

theorem denom_below_camera_distance: "\<not> K2 \<le> denom 0 1 0 0"
proof -
  have "0 < sin (1::real)" by (rule sin_gt_zero_02) simp_all
  then show ?thesis
    by (simp add: denom_def K2_def p_rot_def rotateX_def rotateY_def pObj_def Let_def
        R_major_def R_minor_def)
qed

text \<open>
  C4, amended. For every sample at any rotation angles, the perspective denominator
  \<open>cameraDistance + rotatedPosition.z\<close> is at least the camera distance minus the
  outer radius of the torus, \<open>3 - (1 + 1 / 2) = 3 / 2\<close>, hence positive and never zero,
  and the division computing \<open>inverseDepth\<close> has a non-zero divisor.
\<close>

theorem denom_positive:
  "K2 - (R_major + R_minor) \<le> denom Ax Ay theta phi
   \<and> 0 < denom Ax Ay theta phi
   \<and> denom Ax Ay theta phi \<noteq> 0
   \<and> checked_div 1 (denom Ax Ay theta phi) = Some (invZ Ax Ay theta phi)"
  using denom_bounds [of Ax Ay theta phi]
  by (simp add: K2_def R_major_def R_minor_def checked_div_def invZ_def)

subsection \<open>Shading\<close>

lemma to_int_mono: "r \<le> s \<Longrightarrow> to_int r \<le> to_int s"
proof -
  assume le: "r \<le> s"
  consider "0 \<le> r" | "r < 0" "0 \<le> s" | "s < 0" by linarith
  then show ?thesis
  proof cases
    case 1
    then show ?thesis using le by (simp add: to_int_def floor_mono)
  next
    case 2
    have "\<lceil>r\<rceil> \<le> 0" using 2 by (simp add: ceiling_le_zero)
    moreover have "0 \<le> \<lfloor>s\<rfloor>" using 2 by simp
    ultimately have "\<lceil>r\<rceil> \<le> \<lfloor>s\<rfloor>" by linarith
    then show ?thesis using 2 by (simp add: to_int_def)
  next
    case 3
    then show ?thesis using le by (simp add: to_int_def ceiling_mono)
  qed
qed

lemma shadeMax_eq: "shadeMax = 9"
  by (simp add: shadeMax_def shades_def)

lemma lum_of_mono: "d1 \<le> d2 \<Longrightarrow> lum_of d1 \<le> lum_of d2"
  by (simp add: lum_of_def std_max_def)

lemma lum_of_nonpos: "d \<le> 0 \<Longrightarrow> lum_of d = 0"
  by (simp add: lum_of_def std_max_def)

lemma shadeIdx_of_mono: "l1 \<le> l2 \<Longrightarrow> shadeIdx_of l1 \<le> shadeIdx_of l2"
proof -
  assume "l1 \<le> l2"
  then have "to_int (l1 * real_of_int shadeMax) \<le> to_int (l2 * real_of_int shadeMax)"
    by (intro to_int_mono) (simp add: shadeMax_eq)
  then show ?thesis by (simp add: shadeIdx_of_def std_clamp_def shadeMax_eq)
qed

lemma shadeIdx_of_zero: "shadeIdx_of 0 = 0"
  by (simp add: shadeIdx_of_def std_clamp_def shadeMax_eq to_int_def)

lemma shadeIdx_of_range: "0 \<le> shadeIdx_of l \<and> shadeIdx_of l \<le> 9"
  by (simp add: shadeIdx_of_def std_clamp_def shadeMax_eq)

lemma shades_darkest: "shades ! 0 = CHR '' ''"
  by (simp add: shades_def)

text \<open>
  C7. For the fixed ramp and light the shading is monotone: a sample whose normal has
  a dot product with the light not larger than another sample's gets a ramp index not
  larger than the other's; and a sample whose dot product is not positive has
  luminance 0 and the darkest glyph, the one at index 0 of the ramp.
\<close>

theorem shading_monotone_and_clamped:
  "(d1 \<le> d2 \<longrightarrow> shadeIdx_of (lum_of d1) \<le> shadeIdx_of (lum_of d2))
   \<and> (d \<le> 0 \<longrightarrow> lum_of d = 0 \<and> shadeIdx_of (lum_of d) = 0)
   \<and> (dot (n_rot Ax Ay t1 p1) light \<le> dot (n_rot Ax' Ay' t2 p2) light \<longrightarrow>
        shadeIdx Ax Ay t1 p1 \<le> shadeIdx Ax' Ay' t2 p2)
   \<and> (dot (n_rot Ax Ay t1 p1) light \<le> 0 \<longrightarrow>
        lum Ax Ay t1 p1 = 0 \<and> shadeIdx Ax Ay t1 p1 = 0 \<and> ch Ax Ay t1 p1 = shades ! 0)"
  by (simp add: lum_of_mono shadeIdx_of_mono lum_of_nonpos shadeIdx_of_zero
      lum_def shadeIdx_def ch_def)

lemma light_eq:
  "light = \<lparr>vec_x = - (1 / 2) / sqrt (3 / 2), vec_y = (1 / 2) / sqrt (3 / 2), vec_z = - 1 / sqrt (3 / 2)\<rparr>"
proof -
  have "dot \<lparr>vec_x = - 1 / 2, vec_y = 1 / 2, vec_z = - 1\<rparr> \<lparr>vec_x = - 1 / 2, vec_y = 1 / 2, vec_z = - 1\<rparr> = 3 / 2"
    by (simp add: dot_def)
  then show ?thesis
    by (simp add: light_def normalize_vec_def Let_def)
qed

lemma n_rot_origin: "n_rot 0 0 0 0 = \<lparr>vec_x = 1, vec_y = 0, vec_z = 0\<rparr>"
  by (simp add: n_rot_def nObj_def rotateX_def rotateY_def R_minor_def normalize_vec_def Let_def
      dot_def real_sqrt_divide)

lemma n_rot_pi: "n_rot 0 0 pi 0 = \<lparr>vec_x = - 1, vec_y = 0, vec_z = 0\<rparr>"
  by (simp add: n_rot_def nObj_def rotateX_def rotateY_def R_minor_def normalize_vec_def Let_def
      dot_def real_sqrt_divide)

lemma dot_origin_light: "dot (n_rot 0 0 0 0) light = - (1 / 2) / sqrt (3 / 2)"
  by (simp add: n_rot_origin light_eq dot_def)

lemma dot_pi_light: "dot (n_rot 0 0 pi 0) light = (1 / 2) / sqrt (3 / 2)"
  by (simp add: n_rot_pi light_eq dot_def)

theorem shading_monotone_and_clamped_witness:
  "(3 / 10 :: real) \<le> 1 / 2 \<and> shadeIdx_of (lum_of (3 / 10)) = 2 \<and> shadeIdx_of (lum_of (1 / 2)) = 4
   \<and> shadeIdx_of (lum_of (3 / 10)) \<le> shadeIdx_of (lum_of (1 / 2))
   \<and> - (2 / 5 :: real) \<le> 0 \<and> lum_of (- (2 / 5)) = 0 \<and> shadeIdx_of (lum_of (- (2 / 5))) = 0
   \<and> dot (n_rot 0 0 0 0) light \<le> dot (n_rot 0 0 pi 0) light
   \<and> shadeIdx 0 0 0 0 \<le> shadeIdx 0 0 pi 0
   \<and> dot (n_rot 0 0 0 0) light \<le> 0
   \<and> lum 0 0 0 0 = 0 \<and> shadeIdx 0 0 0 0 = 0 \<and> ch 0 0 0 0 = shades ! 0"
proof -
  have a: "shadeIdx_of (lum_of (3 / 10)) = 2" "shadeIdx_of (lum_of (1 / 2)) = 4"
    by (simp_all add: shadeIdx_of_def lum_of_def std_max_def std_clamp_def shadeMax_eq to_int_def)
  have b: "dot (n_rot 0 0 0 0) light \<le> 0" "dot (n_rot 0 0 0 0) light \<le> dot (n_rot 0 0 pi 0) light"
    by (simp_all add: dot_origin_light dot_pi_light)
  show ?thesis
    using shading_monotone_and_clamped [of "3 / 10" "1 / 2" "- (2 / 5)" 0 0 0 0 0 0 pi 0] a b
    by (simp add: shadeIdx_of_zero)
qed

subsection \<open>The depth buffer\<close>

lemma idx_range:
  assumes "wf_fb fb" "in_bounds fb x y"
  shows "0 \<le> y * fb_w fb + x \<and> y * fb_w fb + x < fb_w fb * fb_h fb"
proof -
  have w: "0 < fb_w fb" and x: "0 \<le> x" "x < fb_w fb" and y: "0 \<le> y" "y + 1 \<le> fb_h fb"
    using assms by (simp_all add: wf_fb_def in_bounds_def)
  have "0 \<le> y * fb_w fb" using y w by simp
  moreover have "(y + 1) * fb_w fb \<le> fb_h fb * fb_w fb"
    using y w by (intro mult_right_mono) simp_all
  ultimately show ?thesis using x by (simp add: algebra_simps)
qed

lemma idx_inj:
  assumes "wf_fb fb" "in_bounds fb x y" "in_bounds fb x' y'"
    and "y * fb_w fb + x = y' * fb_w fb + x'"
  shows "x = x' \<and> y = y'"
proof -
  have w: "0 < fb_w fb" and x: "0 \<le> x" "x < fb_w fb" and x': "0 \<le> x'" "x' < fb_w fb"
    using assms by (simp_all add: wf_fb_def in_bounds_def)
  have "(y * fb_w fb + x) div fb_w fb = y" using w x by simp
  moreover have "(y' * fb_w fb + x') div fb_w fb = y'" using w x' by simp
  ultimately have "y = y'" using assms(4) by simp
  then show ?thesis using assms(4) by simp
qed

lemma set_fb_in_bounds:
  assumes "wf_fb fb" "in_bounds fb x y"
  shows "set_fb fb x y d c = Some (spec_depthTestedWrite fb x y d c)"
  using idx_range [OF assms] assms
  by (simp add: set_fb_def spec_depthTestedWrite_def Let_def wf_fb_def)

lemma body_refines:
  assumes "wf_fb fb"
  shows "body fb Ax Ay theta phi =
    Some (spec_depthTestedWrite fb (cell_x fb Ax Ay theta phi) (cell_y fb Ax Ay theta phi)
            (invZ Ax Ay theta phi) (ch Ax Ay theta phi))"
proof (cases "in_bounds fb (cell_x fb Ax Ay theta phi) (cell_y fb Ax Ay theta phi)")
  case True
  then show ?thesis
    using set_fb_in_bounds [OF assms True] by (simp add: body_def Let_def in_bounds_def)
next
  case False
  then show ?thesis
    by (auto simp add: body_def Let_def in_bounds_def spec_depthTestedWrite_def)
qed

lemma spec_write_dims:
  "fb_w (spec_depthTestedWrite fb x y d c) = fb_w fb
   \<and> fb_h (spec_depthTestedWrite fb x y d c) = fb_h fb
   \<and> length (fb_chars (spec_depthTestedWrite fb x y d c)) = length (fb_chars fb)
   \<and> length (fb_depth (spec_depthTestedWrite fb x y d c)) = length (fb_depth fb)"
  by (simp add: spec_depthTestedWrite_def)

lemma spec_write_wf: "wf_fb fb \<Longrightarrow> wf_fb (spec_depthTestedWrite fb x y d c)"
  by (simp add: wf_fb_def spec_write_dims)

lemma wf_FrameBuffer_new: "0 < W \<Longrightarrow> 0 < H \<Longrightarrow> wf_fb (FrameBuffer_new W H)"
  by (simp add: wf_fb_def FrameBuffer_new_def)

lemma wf_clear: "wf_fb fb \<Longrightarrow> wf_fb (clear fb)"
  by (simp add: wf_fb_def clear_def)

subsection \<open>The first sample of an unrotated frame\<close>

lemma pObj_origin: "pObj 0 0 = \<lparr>vec_x = 3 / 2, vec_y = 0, vec_z = 0\<rparr>"
  by (simp add: pObj_def Let_def R_major_def R_minor_def)

lemma nObj_origin: "nObj 0 0 = \<lparr>vec_x = 1 / 2, vec_y = 0, vec_z = 0\<rparr>"
  by (simp add: nObj_def Let_def R_minor_def)

lemma p_rot_origin: "p_rot 0 0 0 0 = \<lparr>vec_x = 3 / 2, vec_y = 0, vec_z = 0\<rparr>"
  by (simp add: p_rot_def pObj_origin rotateX_def rotateY_def)

lemma invZ_origin: "invZ 0 0 0 0 = 1 / 3"
  by (simp add: invZ_def denom_def p_rot_origin K2_def)

lemma proj_origin: "x_proj 0 0 0 0 = 1 / 2 \<and> y_proj 0 0 0 0 = 0"
  by (simp add: x_proj_def y_proj_def invZ_origin p_rot_origin)

lemma float_origin:
  "x_float fb 0 0 0 0 = real_of_int (fb_w fb) / 2 + K1 fb \<and> y_float fb 0 0 0 0 = real_of_int (fb_h fb) / 2"
  by (simp add: x_float_def y_float_def proj_origin xCellAspect_def)

lemma dot_origin_approx:
  "- (409 / 1000) < dot (n_rot 0 0 0 0) light \<and> dot (n_rot 0 0 0 0) light < - (408 / 1000)"
proof -
  have lo: "1000 / 818 < sqrt (3 / 2)"
    by (rule real_less_rsqrt) (simp add: power2_eq_square)
  have hi: "sqrt (3 / 2) < 1000 / 816"
    by (rule real_less_lsqrt) (simp_all add: power2_eq_square)
  have pos: "0 < sqrt (3 / 2)" by simp
  have "(1 / 2) / sqrt (3 / 2) < 409 / 1000"
    using lo pos by (simp add: field_simps del: real_sqrt_gt_0_iff)
  moreover have "408 / 1000 < (1 / 2) / sqrt (3 / 2)"
    using hi pos by (simp add: field_simps del: real_sqrt_gt_0_iff)
  ultimately show ?thesis by (simp add: dot_origin_light)
qed

lemma shade_origin: "lum 0 0 0 0 = 0 \<and> shadeIdx 0 0 0 0 = 0 \<and> ch 0 0 0 0 = CHR '' ''"
proof -
  have "dot (n_rot 0 0 0 0) light \<le> 0" by (simp add: dot_origin_light)
  then have "lum 0 0 0 0 = 0" by (simp add: lum_def lum_of_nonpos)
  then show ?thesis by (simp add: shadeIdx_def ch_def shadeIdx_of_zero shades_darkest)
qed

lemma K1_bounds:
  assumes "wf_fb fb"
  shows "0 < K1 fb \<and> K1 fb \<le> 3 / 8 * real_of_int (fb_w fb) \<and> K1 fb \<le> 3 / 4 * real_of_int (fb_h fb)"
  using assms by (simp add: K1_def std_min_def wf_fb_def)

lemma to_int_nonneg: "0 \<le> r \<Longrightarrow> to_int r = \<lfloor>r\<rfloor>"
  by (simp add: to_int_def)

lemma cell_origin_in_bounds:
  assumes "wf_fb fb"
  shows "in_bounds fb (cell_x fb 0 0 0 0) (cell_y fb 0 0 0 0)"
proof -
  have w: "0 < fb_w fb" and h: "0 < fb_h fb" using assms by (simp_all add: wf_fb_def)
  have k: "0 < K1 fb" "K1 fb \<le> 3 / 8 * real_of_int (fb_w fb)" using K1_bounds [OF assms] by simp_all
  let ?X = "real_of_int (fb_w fb) / 2 + K1 fb"
  let ?Y = "real_of_int (fb_h fb) / 2"
  have X: "0 \<le> ?X" "?X < real_of_int (fb_w fb)" using w k by simp_all
  have Y: "0 \<le> ?Y" "?Y < real_of_int (fb_h fb)" using h by simp_all
  have "0 \<le> \<lfloor>?X\<rfloor>" "\<lfloor>?X\<rfloor> < fb_w fb" "0 \<le> \<lfloor>?Y\<rfloor>" "\<lfloor>?Y\<rfloor> < fb_h fb"
    using X Y by (simp_all add: floor_less_iff)
  then show ?thesis
    using X(1) Y(1) by (simp add: in_bounds_def cell_x_def cell_y_def float_origin to_int_nonneg)
qed

lemma to_int_nonneg_bounds:
  assumes "0 \<le> r"
  shows "real_of_int (to_int r) \<le> r \<and> r < real_of_int (to_int r) + 1"
  using assms floor_correct [of r] by (simp add: to_int_def)

lemma renderTorus_unfold:
  "renderTorus fb Ax Ay =
     Option.bind (Option.bind (body (clear fb) Ax Ay 0 0) (\<lambda>fb1. phi_loop fb1 Ax Ay 0 dPhi))
       (\<lambda>fb2. theta_loop fb2 Ax Ay dTheta)"
proof -
  have t: "theta_loop (clear fb) Ax Ay 0 =
      (case phi_loop (clear fb) Ax Ay 0 0 of None \<Rightarrow> None | Some fb' \<Rightarrow> theta_loop fb' Ax Ay (0 + dTheta))"
    by (subst theta_loop.simps) simp
  have p: "phi_loop (clear fb) Ax Ay 0 0 =
      (case body (clear fb) Ax Ay 0 0 of None \<Rightarrow> None | Some fb' \<Rightarrow> phi_loop fb' Ax Ay 0 (0 + dPhi))"
    by (subst phi_loop.simps) simp
  show ?thesis
    unfolding renderTorus_def t p by (simp split: option.splits)
qed

text \<open>
  C5, amended. With \<open>Ax = Ay = 0\<close>, major radius 1, minor radius 1/2 and camera
  distance 3, the sample at \<open>theta = 0\<close>, \<open>phi = 0\<close> has object-space position
  \<open>(3/2, 0, 0)\<close> and normal direction \<open>(1/2, 0, 0)\<close>, which normalizes to \<open>(1, 0, 0)\<close>;
  its inverse depth is \<open>1/3\<close>, its projected coordinates are \<open>x = 1/2\<close>, \<open>y = 0\<close>; its
  dot product with the light is between \<open>-0.409\<close> and \<open>-0.408\<close>, so the luminance is 0
  and the glyph is the darkest of the ramp. It is the first sample of the frame, and it
  writes that glyph and the depth \<open>1/3\<close> into the cleared buffer at the in-bounds cell
  that contains the point \<open>(W/2 + scale * aspect * 1/2, H/2)\<close>: the cell whose
  coordinates are the point's, truncated, which need not be the nearest cell.
\<close>

theorem first_sample_unrotated:
  assumes "wf_fb fb"
  shows "R_major = 1 \<and> R_minor = 1 / 2 \<and> K2 = 3
   \<and> pObj 0 0 = \<lparr>vec_x = 3 / 2, vec_y = 0, vec_z = 0\<rparr>
   \<and> nObj 0 0 = \<lparr>vec_x = 1 / 2, vec_y = 0, vec_z = 0\<rparr>
   \<and> normalize_vec (nObj 0 0) = \<lparr>vec_x = 1, vec_y = 0, vec_z = 0\<rparr>
   \<and> n_rot 0 0 0 0 = \<lparr>vec_x = 1, vec_y = 0, vec_z = 0\<rparr>
   \<and> invZ 0 0 0 0 = 1 / 3
   \<and> x_proj 0 0 0 0 = 1 / 2 \<and> y_proj 0 0 0 0 = 0
   \<and> light = normalize_vec \<lparr>vec_x = - 1 / 2, vec_y = 1 / 2, vec_z = - 1\<rparr>
   \<and> - (409 / 1000) < dot (n_rot 0 0 0 0) light \<and> dot (n_rot 0 0 0 0) light < - (408 / 1000)
   \<and> lum 0 0 0 0 = 0 \<and> shadeIdx 0 0 0 0 = 0
   \<and> ch 0 0 0 0 = shades ! 0 \<and> ch 0 0 0 0 = CHR '' ''
   \<and> in_bounds fb (cell_x fb 0 0 0 0) (cell_y fb 0 0 0 0)
   \<and> real_of_int (cell_x fb 0 0 0 0) \<le> real_of_int (fb_w fb) / 2 + K1 fb * xCellAspect * (1 / 2)
      \<and> real_of_int (fb_w fb) / 2 + K1 fb * xCellAspect * (1 / 2) < real_of_int (cell_x fb 0 0 0 0) + 1
   \<and> real_of_int (cell_y fb 0 0 0 0) \<le> real_of_int (fb_h fb) / 2
      \<and> real_of_int (fb_h fb) / 2 < real_of_int (cell_y fb 0 0 0 0) + 1
   \<and> body (clear fb) 0 0 0 0 =
        Some ((clear fb)
          \<lparr>fb_depth := (fb_depth (clear fb))[nat (cell_y fb 0 0 0 0 * fb_w fb + cell_x fb 0 0 0 0) := 1 / 3],
           fb_chars := (fb_chars (clear fb))[nat (cell_y fb 0 0 0 0 * fb_w fb + cell_x fb 0 0 0 0) := CHR '' '']\<rparr>)
   \<and> renderTorus fb 0 0 =
        Option.bind (Option.bind (body (clear fb) 0 0 0 0) (\<lambda>fb1. phi_loop fb1 0 0 0 dPhi))
          (\<lambda>fb2. theta_loop fb2 0 0 dTheta)"
proof -
  have k: "0 < K1 fb" using K1_bounds [OF assms] by simp
  have w: "0 < fb_w fb" and h: "0 < fb_h fb" using assms by (simp_all add: wf_fb_def)
  have c: "wf_fb (clear fb)" using assms by (rule wf_clear)
  have dims: "cell_x (clear fb) 0 0 0 0 = cell_x fb 0 0 0 0" "cell_y (clear fb) 0 0 0 0 = cell_y fb 0 0 0 0"
    "fb_w (clear fb) = fb_w fb"
    by (simp_all add: cell_x_def cell_y_def x_float_def y_float_def K1_def clear_def)
  have ib: "in_bounds fb (cell_x fb 0 0 0 0) (cell_y fb 0 0 0 0)"
    using assms by (rule cell_origin_in_bounds)
  then have ibc: "in_bounds (clear fb) (cell_x fb 0 0 0 0) (cell_y fb 0 0 0 0)"
    by (simp add: in_bounds_def clear_def)
  have r: "nat (cell_y fb 0 0 0 0 * fb_w fb + cell_x fb 0 0 0 0) < length (fb_depth (clear fb))"
    using idx_range [OF assms ib] assms by (simp add: clear_def wf_fb_def)
  have d: "fb_depth (clear fb) ! nat (cell_y fb 0 0 0 0 * fb_w fb + cell_x fb 0 0 0 0) = sentinel"
    using r by (simp add: clear_def)
  have f0: "R_major = 1 \<and> R_minor = 1 / 2 \<and> K2 = 3"
    by (simp add: R_major_def R_minor_def K2_def)
  have f1: "pObj 0 0 = \<lparr>vec_x = 3 / 2, vec_y = 0, vec_z = 0\<rparr>"
    by (rule pObj_origin)
  have f2: "nObj 0 0 = \<lparr>vec_x = 1 / 2, vec_y = 0, vec_z = 0\<rparr>"
    by (rule nObj_origin)
  have f3: "normalize_vec (nObj 0 0) = \<lparr>vec_x = 1, vec_y = 0, vec_z = 0\<rparr>"
    using n_rot_origin by (simp add: n_rot_def nObj_origin rotateX_def rotateY_def)
  have f4: "n_rot 0 0 0 0 = \<lparr>vec_x = 1, vec_y = 0, vec_z = 0\<rparr>"
    by (rule n_rot_origin)
  have f5: "invZ 0 0 0 0 = 1 / 3"
    by (rule invZ_origin)
  have f6: "x_proj 0 0 0 0 = 1 / 2 \<and> y_proj 0 0 0 0 = 0"
    by (rule proj_origin)
  have f7: "light = normalize_vec \<lparr>vec_x = - 1 / 2, vec_y = 1 / 2, vec_z = - 1\<rparr>"
    by (rule light_def)
  have f8: "- (409 / 1000) < dot (n_rot 0 0 0 0) light \<and> dot (n_rot 0 0 0 0) light < - (408 / 1000)"
    by (rule dot_origin_approx)
  have f9: "lum 0 0 0 0 = 0 \<and> shadeIdx 0 0 0 0 = 0"
    by (simp add: shade_origin)
  have f10: "ch 0 0 0 0 = shades ! 0 \<and> ch 0 0 0 0 = CHR '' ''"
    by (simp add: shade_origin shades_darkest)
  have f11: "in_bounds fb (cell_x fb 0 0 0 0) (cell_y fb 0 0 0 0)"
    using assms by (rule cell_origin_in_bounds)
  have f12: "real_of_int (cell_x fb 0 0 0 0) \<le> real_of_int (fb_w fb) / 2 + K1 fb * xCellAspect * (1 / 2)
      \<and> real_of_int (fb_w fb) / 2 + K1 fb * xCellAspect * (1 / 2) < real_of_int (cell_x fb 0 0 0 0) + 1"
    using k w to_int_nonneg_bounds [of "real_of_int (fb_w fb) / 2 + K1 fb"]
    by (simp add: cell_x_def float_origin xCellAspect_def)
  have f13: "real_of_int (cell_y fb 0 0 0 0) \<le> real_of_int (fb_h fb) / 2
      \<and> real_of_int (fb_h fb) / 2 < real_of_int (cell_y fb 0 0 0 0) + 1"
    using h to_int_nonneg_bounds [of "real_of_int (fb_h fb) / 2"]
    by (simp add: cell_y_def float_origin)
  have f14: "body (clear fb) 0 0 0 0 =
        Some ((clear fb)
          \<lparr>fb_depth := (fb_depth (clear fb))[nat (cell_y fb 0 0 0 0 * fb_w fb + cell_x fb 0 0 0 0) := 1 / 3],
           fb_chars := (fb_chars (clear fb))[nat (cell_y fb 0 0 0 0 * fb_w fb + cell_x fb 0 0 0 0) := CHR '' '']\<rparr>)"
    unfolding body_refines [OF c] dims spec_depthTestedWrite_def
    using ibc d by (simp add: dims invZ_origin shade_origin sentinel_def)
  have f15: "renderTorus fb 0 0 =
        Option.bind (Option.bind (body (clear fb) 0 0 0 0) (\<lambda>fb1. phi_loop fb1 0 0 0 dPhi))
          (\<lambda>fb2. theta_loop fb2 0 0 dTheta)"
    by (rule renderTorus_unfold)
  show ?thesis
    using f0 f1 f2 f3 f4 f5 f6 f7 f8 f9 f10 f11 f12 f13 f14 f15 by blast
qed

theorem first_sample_unrotated_witness:
  "wf_fb (FrameBuffer_new 4 4)
   \<and> cell_x (FrameBuffer_new 4 4) 0 0 0 0 = 3 \<and> cell_y (FrameBuffer_new 4 4) 0 0 0 0 = 2
   \<and> body (clear (FrameBuffer_new 4 4)) 0 0 0 0 =
       Some \<lparr>fb_w = 4, fb_h = 4, fb_chars = replicate 16 (CHR '' ''),
             fb_depth = (replicate 16 sentinel)[11 := 1 / 3]\<rparr>"
proof -
  have wf: "wf_fb (FrameBuffer_new 4 4)" by (simp add: wf_FrameBuffer_new)
  have k: "K1 (FrameBuffer_new 4 4) = 3 / 2"
    by (simp add: K1_def FrameBuffer_new_def std_min_def)
  have c: "cell_x (FrameBuffer_new 4 4) 0 0 0 0 = 3" "cell_y (FrameBuffer_new 4 4) 0 0 0 0 = 2"
    by (simp_all add: cell_x_def cell_y_def float_origin k to_int_def) (simp_all add: FrameBuffer_new_def)
  have l: "(replicate 16 (CHR '' ''))[11 := CHR '' ''] = replicate 16 (CHR '' '')"
    by (simp add: list_update_same_conv)
  show ?thesis
    using first_sample_unrotated [OF wf] wf l
    by (simp add: c) (simp add: FrameBuffer_new_def clear_def blank_def)
qed

subsection \<open>The depth-tested write\<close>

text \<open>
  C2, as the claim states it, fails for \<^verbatim>\<open>FrameBuffer::set\<close>, which tests no bounds:
  on a 2 by 2 buffer the call with \<open>(x, y) = (2, 0)\<close>, out of bounds, has the index
  \<open>0 * 2 + 2 = 2\<close> and overwrites the cell \<open>(0, 1)\<close>.
\<close>

theorem set_fb_out_of_bounds_writes:
  "\<not> in_bounds (FrameBuffer_new 2 2) 2 0
   \<and> set_fb (FrameBuffer_new 2 2) 2 0 1 (CHR ''@'') =
       Some \<lparr>fb_w = 2, fb_h = 2, fb_chars = [CHR '' '', CHR '' '', CHR ''@'', CHR '' ''],
             fb_depth = [sentinel, sentinel, 1, sentinel]\<rparr>
   \<and> set_fb (FrameBuffer_new 2 2) 2 0 1 (CHR ''@'') \<noteq> Some (FrameBuffer_new 2 2)"
  by (simp add: in_bounds_def FrameBuffer_new_def set_fb_def sentinel_def blank_def
      numeral_eq_Suc)

text \<open>
  C2, amended. \<^verbatim>\<open>FrameBuffer::set\<close> tests no bounds itself. On a well-formed \<open>W\<close> by
  \<open>H\<close> buffer and for \<open>(x, y)\<close> in bounds it does what the spec's \<open>depthTestedWrite\<close>
  does: it overwrites the glyph and the depth of the cell \<open>(x, y)\<close>, and of no other
  cell, exactly when \<open>inverseDepth\<close> exceeds the depth stored there, and is a no-op
  otherwise. The bounds test is the rasterizer's, made before the call: the loop body
  (bounds test, then \<open>set\<close>) is \<open>depthTestedWrite\<close> for every sample, so a sample whose
  \<open>(x, y)\<close> is out of bounds leaves the buffer unchanged.
\<close>

theorem guarded_write_refines_spec:
  assumes "wf_fb fb"
  shows "(in_bounds fb x y \<longrightarrow> set_fb fb x y d c = Some (spec_depthTestedWrite fb x y d c))
   \<and> body fb Ax Ay theta phi =
        Some (spec_depthTestedWrite fb (cell_x fb Ax Ay theta phi) (cell_y fb Ax Ay theta phi)
                (invZ Ax Ay theta phi) (ch Ax Ay theta phi))
   \<and> (\<not> (in_bounds fb x y \<and> d > fb_depth fb ! nat (y * fb_w fb + x)) \<longrightarrow>
        spec_depthTestedWrite fb x y d c = fb)
   \<and> (in_bounds fb x y \<and> d > fb_depth fb ! nat (y * fb_w fb + x) \<longrightarrow>
        fb_depth (spec_depthTestedWrite fb x y d c) ! nat (y * fb_w fb + x) = d
        \<and> fb_chars (spec_depthTestedWrite fb x y d c) ! nat (y * fb_w fb + x) = c
        \<and> (\<forall>j. j \<noteq> nat (y * fb_w fb + x) \<longrightarrow>
              fb_depth (spec_depthTestedWrite fb x y d c) ! j = fb_depth fb ! j
              \<and> fb_chars (spec_depthTestedWrite fb x y d c) ! j = fb_chars fb ! j))"
proof -
  have a: "in_bounds fb x y \<longrightarrow> set_fb fb x y d c = Some (spec_depthTestedWrite fb x y d c)"
    using set_fb_in_bounds [OF assms] by simp
  have b: "body fb Ax Ay theta phi =
        Some (spec_depthTestedWrite fb (cell_x fb Ax Ay theta phi) (cell_y fb Ax Ay theta phi)
                (invZ Ax Ay theta phi) (ch Ax Ay theta phi))"
    using assms by (rule body_refines)
  have c: "\<not> (in_bounds fb x y \<and> d > fb_depth fb ! nat (y * fb_w fb + x)) \<longrightarrow>
        spec_depthTestedWrite fb x y d c = fb"
    by (simp add: spec_depthTestedWrite_def)
  have e: "in_bounds fb x y \<and> d > fb_depth fb ! nat (y * fb_w fb + x) \<longrightarrow>
        fb_depth (spec_depthTestedWrite fb x y d c) ! nat (y * fb_w fb + x) = d
        \<and> fb_chars (spec_depthTestedWrite fb x y d c) ! nat (y * fb_w fb + x) = c
        \<and> (\<forall>j. j \<noteq> nat (y * fb_w fb + x) \<longrightarrow>
              fb_depth (spec_depthTestedWrite fb x y d c) ! j = fb_depth fb ! j
              \<and> fb_chars (spec_depthTestedWrite fb x y d c) ! j = fb_chars fb ! j)"
  proof
    assume h: "in_bounds fb x y \<and> d > fb_depth fb ! nat (y * fb_w fb + x)"
    then have "nat (y * fb_w fb + x) < nat (fb_w fb * fb_h fb)"
      using idx_range [OF assms, of x y] by simp
    then show "fb_depth (spec_depthTestedWrite fb x y d c) ! nat (y * fb_w fb + x) = d
        \<and> fb_chars (spec_depthTestedWrite fb x y d c) ! nat (y * fb_w fb + x) = c
        \<and> (\<forall>j. j \<noteq> nat (y * fb_w fb + x) \<longrightarrow>
              fb_depth (spec_depthTestedWrite fb x y d c) ! j = fb_depth fb ! j
              \<and> fb_chars (spec_depthTestedWrite fb x y d c) ! j = fb_chars fb ! j)"
      using h assms by (simp add: spec_depthTestedWrite_def wf_fb_def)
  qed
  show ?thesis using a b c e by blast
qed

lemma FrameBuffer_new_dims: "fb_w (FrameBuffer_new W H) = W \<and> fb_h (FrameBuffer_new W H) = H"
  by (simp add: FrameBuffer_new_def)

lemma cell_origin_4:
  "cell_x (FrameBuffer_new 4 4) 0 0 0 0 = 3 \<and> cell_y (FrameBuffer_new 4 4) 0 0 0 0 = 2"
proof -
  have k: "K1 (FrameBuffer_new 4 4) = 3 / 2"
    by (simp add: K1_def FrameBuffer_new_def std_min_def)
  show ?thesis
    by (simp add: cell_x_def cell_y_def float_origin k to_int_def) (simp add: FrameBuffer_new_def)
qed

theorem guarded_write_refines_spec_witness:
  "wf_fb (FrameBuffer_new 4 4)
   \<and> in_bounds (FrameBuffer_new 4 4) 1 1
   \<and> fb_depth (FrameBuffer_new 4 4) ! nat (1 * fb_w (FrameBuffer_new 4 4) + 1) < 1
   \<and> set_fb (FrameBuffer_new 4 4) 1 1 1 (CHR ''@'') =
       Some (spec_depthTestedWrite (FrameBuffer_new 4 4) 1 1 1 (CHR ''@''))
   \<and> fb_depth (spec_depthTestedWrite (FrameBuffer_new 4 4) 1 1 1 (CHR ''@'')) ! 5 = 1
   \<and> fb_chars (spec_depthTestedWrite (FrameBuffer_new 4 4) 1 1 1 (CHR ''@'')) ! 5 = CHR ''@''
   \<and> fb_depth (spec_depthTestedWrite (FrameBuffer_new 4 4) 1 1 1 (CHR ''@'')) ! 0 = sentinel
   \<and> fb_chars (spec_depthTestedWrite (FrameBuffer_new 4 4) 1 1 1 (CHR ''@'')) ! 0 = CHR '' ''
   \<and> \<not> in_bounds (FrameBuffer_new 4 4) 7 0
   \<and> spec_depthTestedWrite (FrameBuffer_new 4 4) 7 0 1 (CHR ''@'') = FrameBuffer_new 4 4
   \<and> body (FrameBuffer_new 4 4) 0 0 0 0 =
       Some (spec_depthTestedWrite (FrameBuffer_new 4 4) 3 2 (1 / 3) (CHR '' ''))"
proof -
  have wf: "wf_fb (FrameBuffer_new 4 4)" by (simp add: wf_FrameBuffer_new)
  have ib: "in_bounds (FrameBuffer_new 4 4) 1 1" "\<not> in_bounds (FrameBuffer_new 4 4) 7 0"
    by (simp_all add: in_bounds_def FrameBuffer_new_def)
  have d: "fb_depth (FrameBuffer_new 4 4) ! 5 < 1" "fb_depth (FrameBuffer_new 4 4) ! 0 = sentinel"
    "fb_chars (FrameBuffer_new 4 4) ! 0 = CHR '' ''"
    by (simp_all add: FrameBuffer_new_def sentinel_def blank_def)
  show ?thesis
    using guarded_write_refines_spec [OF wf, of 1 1 1 "CHR ''@''" 0 0 0 0]
      guarded_write_refines_spec [OF wf, of 7 0 1 "CHR ''@''" 0 0 0 0] wf ib d
    by (simp add: FrameBuffer_new_dims cell_origin_4 invZ_origin shade_origin)
qed

text \<open>
  C10. The depth test is strict: a write whose inverse depth equals the depth stored
  in the cell leaves the buffer unchanged; so of two samples of equal inverse depth
  written to the same cell, the first of which passes the test, the second changes
  nothing and the cell keeps the glyph of the first.
\<close>

theorem depth_test_strict:
  assumes "wf_fb fb" "in_bounds fb x y"
  shows "(fb_depth fb ! nat (y * fb_w fb + x) = d \<longrightarrow> set_fb fb x y d c = Some fb)
   \<and> (fb_depth fb ! nat (y * fb_w fb + x) < d \<longrightarrow>
        (\<exists>fb1. set_fb fb x y d c1 = Some fb1
           \<and> fb_chars fb1 ! nat (y * fb_w fb + x) = c1
           \<and> fb_depth fb1 ! nat (y * fb_w fb + x) = d
           \<and> set_fb fb1 x y d c2 = Some fb1))"
proof -
  have r: "nat (y * fb_w fb + x) < nat (fb_w fb * fb_h fb)"
    using idx_range [OF assms] by simp
  have a: "fb_depth fb ! nat (y * fb_w fb + x) = d \<longrightarrow> set_fb fb x y d c = Some fb"
    using assms by (simp add: set_fb_in_bounds spec_depthTestedWrite_def)
  have b: "fb_depth fb ! nat (y * fb_w fb + x) < d \<longrightarrow>
        (\<exists>fb1. set_fb fb x y d c1 = Some fb1
           \<and> fb_chars fb1 ! nat (y * fb_w fb + x) = c1
           \<and> fb_depth fb1 ! nat (y * fb_w fb + x) = d
           \<and> set_fb fb1 x y d c2 = Some fb1)"
  proof
    assume lt: "fb_depth fb ! nat (y * fb_w fb + x) < d"
    let ?fb1 = "spec_depthTestedWrite fb x y d c1"
    have w1: "wf_fb ?fb1" using assms(1) by (rule spec_write_wf)
    have i1: "in_bounds ?fb1 x y" using assms(2) by (simp add: in_bounds_def spec_write_dims)
    have v: "fb_chars ?fb1 ! nat (y * fb_w fb + x) = c1" "fb_depth ?fb1 ! nat (y * fb_w fb + x) = d"
      using lt assms r by (simp_all add: spec_depthTestedWrite_def wf_fb_def)
    have "set_fb ?fb1 x y d c2 = Some ?fb1"
      using v by (simp add: set_fb_in_bounds [OF w1 i1] spec_depthTestedWrite_def [of ?fb1] spec_write_dims)
    then show "\<exists>fb1. set_fb fb x y d c1 = Some fb1
           \<and> fb_chars fb1 ! nat (y * fb_w fb + x) = c1
           \<and> fb_depth fb1 ! nat (y * fb_w fb + x) = d
           \<and> set_fb fb1 x y d c2 = Some fb1"
      using v set_fb_in_bounds [OF assms] by simp
  qed
  show ?thesis using a b by blast
qed

theorem depth_test_strict_witness:
  "wf_fb (FrameBuffer_new 2 2) \<and> in_bounds (FrameBuffer_new 2 2) 1 0
   \<and> fb_depth (FrameBuffer_new 2 2) ! nat (0 * fb_w (FrameBuffer_new 2 2) + 1) = sentinel
   \<and> set_fb (FrameBuffer_new 2 2) 1 0 sentinel (CHR ''@'') = Some (FrameBuffer_new 2 2)
   \<and> fb_depth (FrameBuffer_new 2 2) ! nat (0 * fb_w (FrameBuffer_new 2 2) + 1) < 1 / 3
   \<and> (\<exists>fb1. set_fb (FrameBuffer_new 2 2) 1 0 (1 / 3) (CHR ''#'') = Some fb1
         \<and> fb_chars fb1 ! 1 = CHR ''#'' \<and> fb_depth fb1 ! 1 = 1 / 3
         \<and> set_fb fb1 1 0 (1 / 3) (CHR ''@'') = Some fb1)"
proof -
  have wf: "wf_fb (FrameBuffer_new 2 2)" by (simp add: wf_FrameBuffer_new)
  have ib: "in_bounds (FrameBuffer_new 2 2) 1 0"
    by (simp add: in_bounds_def FrameBuffer_new_def)
  have d: "fb_depth (FrameBuffer_new 2 2) ! 1 = sentinel" "fb_depth (FrameBuffer_new 2 2) ! 1 < 1 / 3"
    by (simp_all add: FrameBuffer_new_def sentinel_def)
  show ?thesis
    using depth_test_strict [OF wf ib, of sentinel "CHR ''@''" "CHR ''#''" "CHR ''@''"]
      depth_test_strict [OF wf ib, of "1 / 3" "CHR ''@''" "CHR ''#''" "CHR ''@''"] wf ib d
    by (simp add: FrameBuffer_new_dims)
qed

subsection \<open>Cell coordinates\<close>

lemma cell_dims:
  assumes "fb_w a = fb_w b" "fb_h a = fb_h b"
  shows "cell_x a Ax Ay theta phi = cell_x b Ax Ay theta phi
       \<and> cell_y a Ax Ay theta phi = cell_y b Ax Ay theta phi"
  using assms by (simp add: cell_x_def cell_y_def x_float_def y_float_def K1_def)

lemma to_int_abs: "\<bar>real_of_int (to_int r)\<bar> \<le> \<bar>r\<bar> \<and> \<bar>r - real_of_int (to_int r)\<bar> < 1"
proof (cases "0 \<le> r")
  case True
  have "real_of_int \<lfloor>r\<rfloor> \<le> r \<and> r < real_of_int \<lfloor>r\<rfloor> + 1" by linarith
  moreover have "0 \<le> real_of_int \<lfloor>r\<rfloor>" using True by simp
  ultimately have "\<bar>real_of_int \<lfloor>r\<rfloor>\<bar> \<le> \<bar>r\<bar> \<and> \<bar>r - real_of_int \<lfloor>r\<rfloor>\<bar> < 1" by linarith
  then show ?thesis using True by (simp only: to_int_def if_True)
next
  case False
  have "r \<le> real_of_int \<lceil>r\<rceil> \<and> real_of_int \<lceil>r\<rceil> - 1 < r" by linarith
  moreover have "real_of_int \<lceil>r\<rceil> \<le> 0" using False by (simp add: ceiling_le_zero)
  ultimately have "\<bar>real_of_int \<lceil>r\<rceil>\<bar> \<le> \<bar>r\<bar> \<and> \<bar>r - real_of_int \<lceil>r\<rceil>\<bar> < 1" by linarith
  then show ?thesis using False by (simp only: to_int_def if_False)
qed

lemma cell_origin_613:
  "x_float (FrameBuffer_new 613 103) 0 0 0 0 = 1535 / 4 \<and> cell_x (FrameBuffer_new 613 103) 0 0 0 0 = 383
   \<and> cell_y (FrameBuffer_new 613 103) 0 0 0 0 = 51"
proof -
  have k: "K1 (FrameBuffer_new 613 103) = 309 / 4"
    by (simp add: K1_def FrameBuffer_new_def std_min_def)
  have f: "\<lfloor>1535 / 4 :: real\<rfloor> = 383" "\<lfloor>103 / 2 :: real\<rfloor> = 51" by (simp_all add: floor_eq_iff)
  show ?thesis
    by (simp add: cell_x_def cell_y_def float_origin k to_int_def FrameBuffer_new_dims f)
qed

text \<open>
  C3, as the claim states it, fails: the cell coordinates are not rounded. On the 613
  by 103 buffer the program builds for an 80 by 24 terminal, the first sample of an
  unrotated frame has \<open>W/2 + scale * aspect * xProjected = 306.5 + 77.25 * 2 * 0.5 =
  383.75\<close>; rounding gives column 384, while the code computes column 383 and writes
  the sample there.
\<close>

theorem cell_x_not_rounded:
  "real_of_int (fb_w (FrameBuffer_new 613 103)) / 2
      + K1 (FrameBuffer_new 613 103) * xCellAspect * x_proj 0 0 0 0 = 1535 / 4
   \<and> std_round (real_of_int (fb_w (FrameBuffer_new 613 103)) / 2
        + K1 (FrameBuffer_new 613 103) * xCellAspect * x_proj 0 0 0 0) = 384
   \<and> cell_x (FrameBuffer_new 613 103) 0 0 0 0 = 383
   \<and> cell_y (FrameBuffer_new 613 103) 0 0 0 0 = 51
   \<and> body (FrameBuffer_new 613 103) 0 0 0 0
       = set_fb (FrameBuffer_new 613 103) 383 51 (1 / 3) (CHR '' '')"
proof -
  have x: "real_of_int (fb_w (FrameBuffer_new 613 103)) / 2
      + K1 (FrameBuffer_new 613 103) * xCellAspect * x_proj 0 0 0 0 = 1535 / 4"
    using cell_origin_613 by (simp add: x_float_def)
  have r: "std_round (1535 / 4) = 384" by (simp add: std_round_def floor_eq_iff)
  have b: "body (FrameBuffer_new 613 103) 0 0 0 0
       = set_fb (FrameBuffer_new 613 103) 383 51 (1 / 3) (CHR '' '')"
    by (simp add: body_def Let_def cell_origin_613 FrameBuffer_new_dims invZ_origin shade_origin)
  show ?thesis
    unfolding x r using b by (simp add: cell_origin_613)
qed

text \<open>
  C3, amended. For every sample the cell coordinates are the two float expressions
  \<open>W/2 + scale * aspect * xProjected\<close> and \<open>H/2 - scale * yProjected\<close> cast to
  \<^verbatim>\<open>int\<close>, that is truncated toward zero (the integer not larger in magnitude and less
  than 1 away), not rounded; a sample whose \<open>(x, y)\<close> falls outside
  \<open>[0,W) \<times> [0,H)\<close> is discarded and leaves the buffer unchanged, and any other sample
  is passed to \<open>set\<close>.
\<close>

theorem cell_coordinates_truncated:
  "\<bar>real_of_int (cell_x fb Ax Ay theta phi)\<bar>
      \<le> \<bar>real_of_int (fb_w fb) / 2 + K1 fb * xCellAspect * x_proj Ax Ay theta phi\<bar>
   \<and> \<bar>real_of_int (fb_w fb) / 2 + K1 fb * xCellAspect * x_proj Ax Ay theta phi
        - real_of_int (cell_x fb Ax Ay theta phi)\<bar> < 1
   \<and> \<bar>real_of_int (cell_y fb Ax Ay theta phi)\<bar>
      \<le> \<bar>real_of_int (fb_h fb) / 2 - K1 fb * y_proj Ax Ay theta phi\<bar>
   \<and> \<bar>real_of_int (fb_h fb) / 2 - K1 fb * y_proj Ax Ay theta phi
        - real_of_int (cell_y fb Ax Ay theta phi)\<bar> < 1
   \<and> body fb Ax Ay theta phi =
       (if in_bounds fb (cell_x fb Ax Ay theta phi) (cell_y fb Ax Ay theta phi)
        then set_fb fb (cell_x fb Ax Ay theta phi) (cell_y fb Ax Ay theta phi)
               (invZ Ax Ay theta phi) (ch Ax Ay theta phi)
        else Some fb)"
proof -
  have x: "x_float fb Ax Ay theta phi
      = real_of_int (fb_w fb) / 2 + K1 fb * xCellAspect * x_proj Ax Ay theta phi"
    by (simp add: x_float_def)
  have y: "y_float fb Ax Ay theta phi = real_of_int (fb_h fb) / 2 - K1 fb * y_proj Ax Ay theta phi"
    by (simp add: y_float_def)
  have b: "body fb Ax Ay theta phi =
       (if in_bounds fb (cell_x fb Ax Ay theta phi) (cell_y fb Ax Ay theta phi)
        then set_fb fb (cell_x fb Ax Ay theta phi) (cell_y fb Ax Ay theta phi)
               (invZ Ax Ay theta phi) (ch Ax Ay theta phi)
        else Some fb)"
    by (simp add: body_def Let_def in_bounds_def)
  show ?thesis
    using to_int_abs [of "x_float fb Ax Ay theta phi"] to_int_abs [of "y_float fb Ax Ay theta phi"] b
    unfolding cell_x_def cell_y_def x y by blast
qed

theorem cell_coordinates_truncated_witness:
  "real_of_int (fb_w (FrameBuffer_new 613 103)) / 2
      + K1 (FrameBuffer_new 613 103) * xCellAspect * x_proj 0 0 0 0 = 1535 / 4
   \<and> cell_x (FrameBuffer_new 613 103) 0 0 0 0 = 383
   \<and> \<bar>real_of_int 383\<bar> \<le> \<bar>1535 / 4 :: real\<bar>
   \<and> \<bar>1535 / 4 - real_of_int 383\<bar> < 1
   \<and> in_bounds (FrameBuffer_new 613 103) 383 51
   \<and> body (FrameBuffer_new 613 103) 0 0 0 0
       = set_fb (FrameBuffer_new 613 103) 383 51 (1 / 3) (CHR '' '')"
proof -
  have x: "real_of_int (fb_w (FrameBuffer_new 613 103)) / 2
      + K1 (FrameBuffer_new 613 103) * xCellAspect * x_proj 0 0 0 0 = 1535 / 4"
    using cell_origin_613 by (simp add: x_float_def)
  have ib: "in_bounds (FrameBuffer_new 613 103) 383 51"
    by (simp add: in_bounds_def FrameBuffer_new_dims)
  show ?thesis
    using cell_coordinates_truncated [of "FrameBuffer_new 613 103" 0 0 0 0] ib
    unfolding x by (simp add: cell_origin_613 invZ_origin shade_origin)
qed

subsection \<open>The darkest glyph and the blank cell\<close>

lemma clear_fields:
  "fb_w (clear fb) = fb_w fb \<and> fb_h (clear fb) = fb_h fb
   \<and> fb_chars (clear fb) = replicate (length (fb_chars fb)) blank
   \<and> fb_depth (clear fb) = replicate (length (fb_depth fb)) sentinel"
  by (simp add: clear_def)

lemma dark_sample_write:
  assumes "wf_fb fb"
    and "in_bounds fb (cell_x fb Ax Ay theta phi) (cell_y fb Ax Ay theta phi)"
    and "dot (n_rot Ax Ay theta phi) light \<le> 0"
    and "fb_depth fb ! nat (cell_y fb Ax Ay theta phi * fb_w fb + cell_x fb Ax Ay theta phi)
           < invZ Ax Ay theta phi"
  shows "body fb Ax Ay theta phi =
       Some (fb\<lparr>fb_depth := (fb_depth fb)
                   [nat (cell_y fb Ax Ay theta phi * fb_w fb + cell_x fb Ax Ay theta phi)
                      := invZ Ax Ay theta phi],
                 fb_chars := (fb_chars fb)
                   [nat (cell_y fb Ax Ay theta phi * fb_w fb + cell_x fb Ax Ay theta phi) := blank]\<rparr>)"
proof -
  have l: "lum Ax Ay theta phi = 0" using assms(3) by (simp add: lum_def lum_of_nonpos)
  then have g: "ch Ax Ay theta phi = blank"
    by (simp add: ch_def shadeIdx_def shadeIdx_of_zero shades_darkest blank_def)
  show ?thesis
    using body_refines [OF assms(1), of Ax Ay theta phi] assms(2,4)
    by (simp add: spec_depthTestedWrite_def g)
qed

lemma written_cell_occludes:
  assumes "wf_fb fb" "in_bounds fb x y" "fb_depth fb ! nat (y * fb_w fb + x) = z" "d' \<le> z"
  shows "set_fb fb x y d' c' = Some fb"
  using assms by (simp add: set_fb_in_bounds spec_depthTestedWrite_def)

text \<open>
  C9. The darkest glyph of the ramp is the space character, the glyph \<open>clear\<close> resets
  every cell to. So an in-bounds sample whose luminance clamps to 0 and whose inverse
  depth exceeds the depth stored in its cell, in any well-formed buffer, writes into the
  cell the glyph of an empty cell (replacing whatever glyph the cell held, and changing
  no other cell) and records its inverse depth there; after that a sample of the same
  cell that is not nearer, whatever its glyph, is rejected. In a cleared buffer the
  test always passes and the glyph grid stays as \<open>clear\<close> left it, all blank.
\<close>

theorem darkest_glyph_blank_occludes:
  assumes "wf_fb fb"
    and "in_bounds fb (cell_x fb Ax Ay theta phi) (cell_y fb Ax Ay theta phi)"
    and "dot (n_rot Ax Ay theta phi) light \<le> 0"
  shows "shades ! 0 = CHR '' '' \<and> blank = CHR '' ''
   \<and> fb_chars (clear fb) = replicate (length (fb_chars fb)) (shades ! 0)
   \<and> lum Ax Ay theta phi = 0
   \<and> ch Ax Ay theta phi = shades ! 0
   \<and> (fb_depth fb ! nat (cell_y fb Ax Ay theta phi * fb_w fb + cell_x fb Ax Ay theta phi)
         < invZ Ax Ay theta phi \<longrightarrow>
       (\<exists>fb1. body fb Ax Ay theta phi = Some fb1
          \<and> fb1 = fb\<lparr>fb_depth := (fb_depth fb)
                        [nat (cell_y fb Ax Ay theta phi * fb_w fb + cell_x fb Ax Ay theta phi)
                           := invZ Ax Ay theta phi],
                      fb_chars := (fb_chars fb)
                        [nat (cell_y fb Ax Ay theta phi * fb_w fb + cell_x fb Ax Ay theta phi)
                           := shades ! 0]\<rparr>
          \<and> fb_chars fb1 ! nat (cell_y fb Ax Ay theta phi * fb_w fb + cell_x fb Ax Ay theta phi)
              = CHR '' ''
          \<and> fb_depth fb1 ! nat (cell_y fb Ax Ay theta phi * fb_w fb + cell_x fb Ax Ay theta phi)
              = invZ Ax Ay theta phi
          \<and> (\<forall>d' c'. d' \<le> invZ Ax Ay theta phi \<longrightarrow>
                set_fb fb1 (cell_x fb Ax Ay theta phi) (cell_y fb Ax Ay theta phi) d' c' = Some fb1)))
   \<and> (\<exists>fb1. body (clear fb) Ax Ay theta phi = Some fb1
         \<and> fb_chars fb1 = fb_chars (clear fb)
         \<and> fb_depth (clear fb) ! nat (cell_y fb Ax Ay theta phi * fb_w fb + cell_x fb Ax Ay theta phi) = sentinel
         \<and> fb_depth fb1 ! nat (cell_y fb Ax Ay theta phi * fb_w fb + cell_x fb Ax Ay theta phi)
             = invZ Ax Ay theta phi
         \<and> sentinel < invZ Ax Ay theta phi
         \<and> (\<forall>d' c'. d' \<le> invZ Ax Ay theta phi \<longrightarrow>
               set_fb fb1 (cell_x fb Ax Ay theta phi) (cell_y fb Ax Ay theta phi) d' c' = Some fb1))"
proof -
  let ?x = "cell_x fb Ax Ay theta phi" and ?y = "cell_y fb Ax Ay theta phi"
  let ?i = "nat (?y * fb_w fb + ?x)"
  let ?z = "invZ Ax Ay theta phi"
  have r: "?i < nat (fb_w fb * fb_h fb)" using idx_range [OF assms(1,2)] by simp
  have len: "length (fb_chars fb) = nat (fb_w fb * fb_h fb)" "length (fb_depth fb) = nat (fb_w fb * fb_h fb)"
    using assms(1) by (simp_all add: wf_fb_def)
  have l: "lum Ax Ay theta phi = 0" using assms(3) by (simp add: lum_def lum_of_nonpos)
  then have g: "ch Ax Ay theta phi = shades ! 0" by (simp add: ch_def shadeIdx_def shadeIdx_of_zero)
  have s0: "shades ! 0 = CHR '' '' \<and> blank = CHR '' ''" by (simp add: shades_darkest blank_def)
  have sb: "shades ! 0 = blank" using s0 by simp
  have cl: "fb_chars (clear fb) = replicate (length (fb_chars fb)) (shades ! 0)"
    by (simp add: clear_fields sb)
  \<comment> \<open>any well-formed buffer whose cell is farther than the sample\<close>
  have gen: "\<And>f. wf_fb f \<Longrightarrow> fb_w f = fb_w fb \<Longrightarrow> fb_h f = fb_h fb \<Longrightarrow> fb_depth f ! ?i < ?z \<Longrightarrow>
      body f Ax Ay theta phi = Some (f\<lparr>fb_depth := (fb_depth f)[?i := ?z], fb_chars := (fb_chars f)[?i := blank]\<rparr>)
      \<and> fb_chars (f\<lparr>fb_depth := (fb_depth f)[?i := ?z], fb_chars := (fb_chars f)[?i := blank]\<rparr>) ! ?i = blank
      \<and> fb_depth (f\<lparr>fb_depth := (fb_depth f)[?i := ?z], fb_chars := (fb_chars f)[?i := blank]\<rparr>) ! ?i = ?z
      \<and> (\<forall>d' c'. d' \<le> ?z \<longrightarrow>
            set_fb (f\<lparr>fb_depth := (fb_depth f)[?i := ?z], fb_chars := (fb_chars f)[?i := blank]\<rparr>) ?x ?y d' c'
              = Some (f\<lparr>fb_depth := (fb_depth f)[?i := ?z], fb_chars := (fb_chars f)[?i := blank]\<rparr>))"
  proof -
    fix f assume f: "wf_fb f" "fb_w f = fb_w fb" "fb_h f = fb_h fb" "fb_depth f ! ?i < ?z"
    let ?f1 = "f\<lparr>fb_depth := (fb_depth f)[?i := ?z], fb_chars := (fb_chars f)[?i := blank]\<rparr>"
    have cd: "cell_x f Ax Ay theta phi = ?x" "cell_y f Ax Ay theta phi = ?y"
      using cell_dims [OF f(2,3)] by simp_all
    have ibf: "in_bounds f ?x ?y" using assms(2) f(2,3) by (simp add: in_bounds_def)
    have lf: "length (fb_chars f) = nat (fb_w fb * fb_h fb)" "length (fb_depth f) = nat (fb_w fb * fb_h fb)"
      using f(1,2,3) by (simp_all add: wf_fb_def)
    have b: "body f Ax Ay theta phi = Some ?f1"
      using dark_sample_write [of f Ax Ay theta phi] f(1,4) ibf assms(3) by (simp add: cd f(2))
    have w1: "wf_fb ?f1" using f(1) by (simp add: wf_fb_def)
    have i1: "in_bounds ?f1 ?x ?y" using ibf by (simp add: in_bounds_def)
    have v: "fb_chars ?f1 ! ?i = blank" "fb_depth ?f1 ! ?i = ?z" using r lf by simp_all
    have d1: "fb_depth ?f1 ! nat (?y * fb_w ?f1 + ?x) = ?z" using v(2) f(2) by simp
    have occ: "\<forall>d' c'. d' \<le> ?z \<longrightarrow> set_fb ?f1 ?x ?y d' c' = Some ?f1"
      using written_cell_occludes [OF w1 i1 d1] by blast
    show "body f Ax Ay theta phi = Some ?f1 \<and> fb_chars ?f1 ! ?i = blank \<and> fb_depth ?f1 ! ?i = ?z
      \<and> (\<forall>d' c'. d' \<le> ?z \<longrightarrow> set_fb ?f1 ?x ?y d' c' = Some ?f1)"
      using b v occ by blast
  qed
  have a: "fb_depth fb ! ?i < ?z \<longrightarrow>
       (\<exists>fb1. body fb Ax Ay theta phi = Some fb1
          \<and> fb1 = fb\<lparr>fb_depth := (fb_depth fb)[?i := ?z], fb_chars := (fb_chars fb)[?i := shades ! 0]\<rparr>
          \<and> fb_chars fb1 ! ?i = CHR '' ''
          \<and> fb_depth fb1 ! ?i = ?z
          \<and> (\<forall>d' c'. d' \<le> ?z \<longrightarrow> set_fb fb1 ?x ?y d' c' = Some fb1))"
    using gen [OF assms(1)] s0 sb by auto
  have c: "wf_fb (clear fb)" using assms(1) by (rule wf_clear)
  have d0: "fb_depth (clear fb) ! ?i = sentinel" using r len by (simp add: clear_fields)
  have z: "sentinel < ?z" by (rule invZ_gt_sentinel)
  have same: "(fb_chars (clear fb))[?i := blank] = fb_chars (clear fb)"
    using r len by (simp add: clear_fields list_update_same_conv)
  have b: "\<exists>fb1. body (clear fb) Ax Ay theta phi = Some fb1
         \<and> fb_chars fb1 = fb_chars (clear fb)
         \<and> fb_depth (clear fb) ! ?i = sentinel
         \<and> fb_depth fb1 ! ?i = ?z
         \<and> sentinel < ?z
         \<and> (\<forall>d' c'. d' \<le> ?z \<longrightarrow> set_fb fb1 ?x ?y d' c' = Some fb1)"
    using gen [OF c, simplified clear_fields d0, OF refl refl] d0 z same
    by (intro exI [of _ "(clear fb)\<lparr>fb_depth := (fb_depth (clear fb))[?i := ?z],
          fb_chars := (fb_chars (clear fb))[?i := blank]\<rparr>"]) (simp add: clear_fields)
  show ?thesis using s0 cl l g a b by blast
qed

theorem darkest_glyph_blank_occludes_witness:
  "wf_fb \<lparr>fb_w = 4, fb_h = 4, fb_chars = (replicate 16 (CHR '' ''))[11 := CHR ''@''],
          fb_depth = (replicate 16 sentinel)[11 := 1 / 4]\<rparr>
   \<and> cell_x \<lparr>fb_w = 4, fb_h = 4, fb_chars = (replicate 16 (CHR '' ''))[11 := CHR ''@''],
          fb_depth = (replicate 16 sentinel)[11 := 1 / 4]\<rparr> 0 0 0 0 = 3
   \<and> cell_y \<lparr>fb_w = 4, fb_h = 4, fb_chars = (replicate 16 (CHR '' ''))[11 := CHR ''@''],
          fb_depth = (replicate 16 sentinel)[11 := 1 / 4]\<rparr> 0 0 0 0 = 2
   \<and> in_bounds \<lparr>fb_w = 4, fb_h = 4, fb_chars = (replicate 16 (CHR '' ''))[11 := CHR ''@''],
          fb_depth = (replicate 16 sentinel)[11 := 1 / 4]\<rparr> 3 2
   \<and> dot (n_rot 0 0 0 0) light \<le> 0
   \<and> (1 / 4 :: real) < invZ 0 0 0 0
   \<and> (\<exists>fb1. body \<lparr>fb_w = 4, fb_h = 4, fb_chars = (replicate 16 (CHR '' ''))[11 := CHR ''@''],
          fb_depth = (replicate 16 sentinel)[11 := 1 / 4]\<rparr> 0 0 0 0 = Some fb1
         \<and> fb_chars fb1 = replicate 16 (CHR '' '')
         \<and> fb_depth fb1 = (replicate 16 sentinel)[11 := 1 / 3]
         \<and> set_fb fb1 3 2 (3 / 10) (CHR ''#'') = Some fb1)
   \<and> (\<exists>fb1. body (clear (FrameBuffer_new 4 4)) 0 0 0 0 = Some fb1
         \<and> fb_chars fb1 = replicate 16 (CHR '' '')
         \<and> fb_depth fb1 ! 11 = 1 / 3
         \<and> set_fb fb1 3 2 (1 / 4) (CHR ''@'') = Some fb1)"
proof -
  let ?occ = "\<lparr>fb_w = 4, fb_h = 4, fb_chars = (replicate 16 (CHR '' ''))[11 := CHR ''@''],
          fb_depth = (replicate 16 sentinel)[11 := 1 / 4]\<rparr>"
  have wf: "wf_fb ?occ" by (simp add: wf_fb_def)
  have c: "cell_x ?occ 0 0 0 0 = 3" "cell_y ?occ 0 0 0 0 = 2"
    using cell_dims [of ?occ "FrameBuffer_new 4 4" 0 0 0 0] cell_origin_4
    by (simp_all add: FrameBuffer_new_dims)
  have ib: "in_bounds ?occ (cell_x ?occ 0 0 0 0) (cell_y ?occ 0 0 0 0)"
    by (simp add: c in_bounds_def)
  have d: "dot (n_rot 0 0 0 0) light \<le> 0" by (simp add: dot_origin_light)
  have lt: "fb_depth ?occ ! nat (cell_y ?occ 0 0 0 0 * fb_w ?occ + cell_x ?occ 0 0 0 0) < invZ 0 0 0 0"
    by (simp add: c invZ_origin)
  note t = darkest_glyph_blank_occludes [OF wf ib d]
  from t lt obtain fb1 where f: "body ?occ 0 0 0 0 = Some fb1"
    "fb1 = ?occ\<lparr>fb_depth := (fb_depth ?occ)
                        [nat (cell_y ?occ 0 0 0 0 * fb_w ?occ + cell_x ?occ 0 0 0 0) := invZ 0 0 0 0],
                 fb_chars := (fb_chars ?occ)
                        [nat (cell_y ?occ 0 0 0 0 * fb_w ?occ + cell_x ?occ 0 0 0 0) := shades ! 0]\<rparr>"
    "\<forall>d' c'. d' \<le> invZ 0 0 0 0 \<longrightarrow>
       set_fb fb1 (cell_x ?occ 0 0 0 0) (cell_y ?occ 0 0 0 0) d' c' = Some fb1"
    by blast
  have o1: "fb_chars fb1 = replicate 16 (CHR '' '')"
    unfolding f(2) by (simp add: c shades_darkest) (simp add: list_update_same_conv)
  have o2: "fb_depth fb1 = (replicate 16 sentinel)[11 := 1 / 3]"
    unfolding f(2) by (simp add: c invZ_origin)
  have o3: "set_fb fb1 3 2 (3 / 10) (CHR ''#'') = Some fb1"
    using f(3) by (simp add: c invZ_origin)
  have occ: "\<exists>fb1. body ?occ 0 0 0 0 = Some fb1
         \<and> fb_chars fb1 = replicate 16 (CHR '' '')
         \<and> fb_depth fb1 = (replicate 16 sentinel)[11 := 1 / 3]
         \<and> set_fb fb1 3 2 (3 / 10) (CHR ''#'') = Some fb1"
    using f(1) o1 o2 o3 by blast
  have wf4: "wf_fb (FrameBuffer_new 4 4)" by (simp add: wf_FrameBuffer_new)
  have ib4: "in_bounds (FrameBuffer_new 4 4) (cell_x (FrameBuffer_new 4 4) 0 0 0 0) (cell_y (FrameBuffer_new 4 4) 0 0 0 0)"
    by (simp add: cell_origin_4 in_bounds_def FrameBuffer_new_dims)
  have len: "length (fb_chars (FrameBuffer_new 4 4)) = 16" by (simp add: FrameBuffer_new_def)
  from darkest_glyph_blank_occludes [OF wf4 ib4 d]
  obtain fb2 where h: "body (clear (FrameBuffer_new 4 4)) 0 0 0 0 = Some fb2"
    "fb_chars fb2 = fb_chars (clear (FrameBuffer_new 4 4))"
    "fb_depth fb2 ! nat (cell_y (FrameBuffer_new 4 4) 0 0 0 0 * fb_w (FrameBuffer_new 4 4) + cell_x (FrameBuffer_new 4 4) 0 0 0 0)
       = invZ 0 0 0 0"
    "\<forall>d' c'. d' \<le> invZ 0 0 0 0 \<longrightarrow>
       set_fb fb2 (cell_x (FrameBuffer_new 4 4) 0 0 0 0) (cell_y (FrameBuffer_new 4 4) 0 0 0 0) d' c' = Some fb2"
    by blast
  have "set_fb fb2 3 2 (1 / 4) (CHR ''@'') = Some fb2"
    using h(4) by (simp add: cell_origin_4 invZ_origin)
  moreover have "fb_chars fb2 = replicate 16 (CHR '' '')"
    using h(2) by (simp add: clear_fields len blank_def)
  moreover have "fb_depth fb2 ! 11 = 1 / 3"
    using h(3) by (simp add: cell_origin_4 invZ_origin FrameBuffer_new_dims)
  ultimately have cleared: "\<exists>fb1. body (clear (FrameBuffer_new 4 4)) 0 0 0 0 = Some fb1
         \<and> fb_chars fb1 = replicate 16 (CHR '' '')
         \<and> fb_depth fb1 ! 11 = 1 / 3
         \<and> set_fb fb1 3 2 (1 / 4) (CHR ''@'') = Some fb1"
    using h(1) by blast
  have q: "(1 / 4 :: real) < invZ 0 0 0 0" by (simp add: invZ_origin)
  have ib': "in_bounds ?occ 3 2" by (simp add: in_bounds_def)
  show ?thesis using wf c ib' d q occ cleared by blast
qed

subsection \<open>The first sample and the nearest cell\<close>

text \<open>
  C5, as the claim states it, fails in its last clause: the glyph is not written at the
  nearest cell. On the 613 by 103 buffer the program builds for an 80 by 24 terminal
  the point \<open>(W/2 + scale * aspect * 1/2, H/2)\<close> is \<open>(383.75, 51.5)\<close>; the nearest
  column is 384, the nearest row 52 (51 if the tie is broken downward). The sample is
  written at cell \<open>(383, 51)\<close>, and the cells \<open>(384, 51)\<close> and \<open>(384, 52)\<close> keep the
  sentinel depth.
\<close>

theorem first_sample_not_in_nearest_cell:
  "real_of_int (fb_w (FrameBuffer_new 613 103)) / 2
      + K1 (FrameBuffer_new 613 103) * xCellAspect * x_proj 0 0 0 0 = 1535 / 4
   \<and> real_of_int (fb_h (FrameBuffer_new 613 103)) / 2
      - K1 (FrameBuffer_new 613 103) * y_proj 0 0 0 0 = 103 / 2
   \<and> std_round (1535 / 4) = 384 \<and> std_round (103 / 2) = 52
   \<and> map_option (\<lambda>f. fb_depth f ! nat (51 * 613 + 383)) (body (clear (FrameBuffer_new 613 103)) 0 0 0 0)
       = Some (1 / 3)
   \<and> map_option (\<lambda>f. fb_depth f ! nat (51 * 613 + 384)) (body (clear (FrameBuffer_new 613 103)) 0 0 0 0)
       = Some sentinel
   \<and> map_option (\<lambda>f. fb_depth f ! nat (52 * 613 + 384)) (body (clear (FrameBuffer_new 613 103)) 0 0 0 0)
       = Some sentinel"
proof -
  let ?fb = "FrameBuffer_new 613 103"
  have x: "real_of_int (fb_w ?fb) / 2 + K1 ?fb * xCellAspect * x_proj 0 0 0 0 = 1535 / 4"
    using cell_origin_613 by (simp add: x_float_def)
  have y: "real_of_int (fb_h ?fb) / 2 - K1 ?fb * y_proj 0 0 0 0 = 103 / 2"
    by (simp add: proj_origin FrameBuffer_new_dims)
  have r: "std_round (1535 / 4) = 384" "std_round (103 / 2) = 52"
    by (simp_all add: std_round_def floor_eq_iff)
  have c: "wf_fb (clear ?fb)" by (simp add: wf_clear wf_FrameBuffer_new)
  have cd: "cell_x (clear ?fb) 0 0 0 0 = 383" "cell_y (clear ?fb) 0 0 0 0 = 51"
    using cell_dims [of "clear ?fb" ?fb 0 0 0 0] cell_origin_613 by (simp_all add: clear_fields)
  have b: "body (clear ?fb) 0 0 0 0 = Some (spec_depthTestedWrite (clear ?fb) 383 51 (1 / 3) (CHR '' ''))"
    using body_refines [OF c, of 0 0 0 0] by (simp add: cd invZ_origin shade_origin)
  have d: "fb_depth (clear ?fb) = replicate 63139 sentinel" "fb_w (clear ?fb) = 613" "fb_h (clear ?fb) = 103"
    by (simp_all add: clear_fields FrameBuffer_new_def)
  have w: "fb_depth (spec_depthTestedWrite (clear ?fb) 383 51 (1 / 3) (CHR '' ''))
      = (replicate 63139 sentinel)[31646 := 1 / 3]"
    by (simp add: spec_depthTestedWrite_def in_bounds_def d sentinel_def)
  show ?thesis
    unfolding x y r b by (simp add: w)
qed

subsection \<open>The display compositor\<close>

lemma those_map_Some:
  assumes "\<And>x. x \<in> set xs \<Longrightarrow> f x = Some (g x)"
  shows "those (map f xs) = Some (map g xs)"
  using assms by (induction xs) simp_all

lemma blit_identity_scale:
  assumes "0 < fb_w fb" "0 < fb_h fb"
  shows "blit_s fb (fb_h fb) (fb_w fb) = 1 \<and> blit_invS fb (fb_h fb) (fb_w fb) = 1"
  using assms by (simp add: blit_s_def blit_invS_def std_max_def Let_def)

lemma to_int_of_int: "to_int (real_of_int n) = n"
  by (simp add: to_int_def)

lemma std_round_of_int: "std_round (real_of_int n) = real_of_int n"
proof -
  have "\<lfloor>real_of_int n + 1 / 2\<rfloor> = n" by (simp add: floor_eq_iff)
  moreover have "\<lceil>real_of_int n - 1 / 2\<rceil> = n" by (simp add: ceiling_eq_iff)
  ultimately show ?thesis by (simp add: std_round_def)
qed

lemma blit_identity_view:
  assumes "0 < fb_w fb" "0 < fb_h fb"
  shows "viewW fb (fb_h fb) (fb_w fb) = fb_w fb \<and> viewH fb (fb_h fb) (fb_w fb) = fb_h fb
       \<and> blit_x0 fb (fb_h fb) (fb_w fb) = 0 \<and> blit_y0 fb (fb_h fb) (fb_w fb) = 0"
  using assms
  by (simp add: viewW_def viewH_def blit_x0_def blit_y0_def blit_identity_scale
      std_round_of_int to_int_of_int std_max_def c_div_def)

lemma blit_identity_coords:
  assumes "0 < fb_w fb" "0 < fb_h fb" "0 \<le> x" "x < fb_w fb" "0 \<le> y" "y < fb_h fb"
  shows "blit_vx fb (fb_h fb) (fb_w fb) x = x \<and> blit_vy fb (fb_h fb) (fb_w fb) y = y"
  using assms
  by (simp add: blit_vx_def blit_vy_def blit_identity_view blit_identity_scale to_int_of_int
      std_clamp_def)

lemma get_fb_in_bounds:
  assumes "wf_fb fb" "in_bounds fb x y"
  shows "get_fb fb x y = Some (fb_chars fb ! nat (y * fb_w fb + x))"
  using idx_range [OF assms] assms(1) by (simp add: get_fb_def Let_def wf_fb_def)

lemma blit_cell_identity:
  assumes "wf_fb fb" "CHR 0x00 \<notin> set (fb_chars fb)" "0 \<le> y" "y < fb_h fb" "0 \<le> x" "x < fb_w fb"
  shows "blit_cell fb (fb_h fb) (fb_w fb) y x = Some (fb_chars fb ! nat (y * fb_w fb + x))"
proof -
  have w: "0 < fb_w fb" "0 < fb_h fb" using assms(1) by (simp_all add: wf_fb_def)
  have ib: "in_bounds fb x y" using assms by (simp add: in_bounds_def)
  have r: "nat (y * fb_w fb + x) < length (fb_chars fb)"
    using idx_range [OF assms(1) ib] assms(1) by (simp add: wf_fb_def)
  then have "fb_chars fb ! nat (y * fb_w fb + x) \<in> set (fb_chars fb)" by simp
  then have nz: "fb_chars fb ! nat (y * fb_w fb + x) \<noteq> CHR 0x00" using assms(2) by metis
  have v: "blit_vx fb (fb_h fb) (fb_w fb) x = x" "blit_vy fb (fb_h fb) (fb_w fb) y = y"
    using blit_identity_coords [OF w assms(5,6,3,4)] by simp_all
  have s: "blit_s fb (fb_h fb) (fb_w fb) = 1" using blit_identity_scale [OF w] by simp
  show ?thesis
    unfolding blit_cell_def v get_fb_in_bounds [OF assms(1) ib] using nz by simp
qed

text \<open>
  C6. When the terminal has as many columns and rows as the buffer, the compositor is
  the identity: the scale is 1, the view window is the whole buffer, placed at
  \<open>(0, 0)\<close>, and every terminal cell \<open>(y, x)\<close> receives the glyph stored at buffer cell
  \<open>(x, y)\<close>. The buffer is one the rasterizer can have filled: well-formed, and
  holding no NUL character (which the compositor replaces by a space).
\<close>

theorem blit_identity:
  assumes "wf_fb fb" "CHR 0x00 \<notin> set (fb_chars fb)"
  shows "blit_s fb (fb_h fb) (fb_w fb) = 1
   \<and> viewW fb (fb_h fb) (fb_w fb) = fb_w fb \<and> viewH fb (fb_h fb) (fb_w fb) = fb_h fb
   \<and> blit_x0 fb (fb_h fb) (fb_w fb) = 0 \<and> blit_y0 fb (fb_h fb) (fb_w fb) = 0
   \<and> (\<forall>y x. 0 \<le> y \<and> y < fb_h fb \<and> 0 \<le> x \<and> x < fb_w fb \<longrightarrow>
         blit_vx fb (fb_h fb) (fb_w fb) x = x \<and> blit_vy fb (fb_h fb) (fb_w fb) y = y
         \<and> blit_cell fb (fb_h fb) (fb_w fb) y x = get_fb fb x y
         \<and> get_fb fb x y = Some (fb_chars fb ! nat (y * fb_w fb + x)))
   \<and> blitVirtualToCurses fb (fb_h fb) (fb_w fb) =
       Some (map (\<lambda>y. map (\<lambda>x. fb_chars fb ! nat (y * fb_w fb + x)) [0 .. fb_w fb - 1]) [0 .. fb_h fb - 1])"
proof -
  have w: "0 < fb_w fb" "0 < fb_h fb" using assms(1) by (simp_all add: wf_fb_def)
  have a: "blit_s fb (fb_h fb) (fb_w fb) = 1" using blit_identity_scale [OF w] by simp
  have b: "viewW fb (fb_h fb) (fb_w fb) = fb_w fb \<and> viewH fb (fb_h fb) (fb_w fb) = fb_h fb
       \<and> blit_x0 fb (fb_h fb) (fb_w fb) = 0 \<and> blit_y0 fb (fb_h fb) (fb_w fb) = 0"
    using w by (rule blit_identity_view)
  have c: "\<forall>y x. 0 \<le> y \<and> y < fb_h fb \<and> 0 \<le> x \<and> x < fb_w fb \<longrightarrow>
         blit_vx fb (fb_h fb) (fb_w fb) x = x \<and> blit_vy fb (fb_h fb) (fb_w fb) y = y
         \<and> blit_cell fb (fb_h fb) (fb_w fb) y x = get_fb fb x y
         \<and> get_fb fb x y = Some (fb_chars fb ! nat (y * fb_w fb + x))"
  proof (intro allI impI)
    fix y x assume h: "0 \<le> y \<and> y < fb_h fb \<and> 0 \<le> x \<and> x < fb_w fb"
    then have ib: "in_bounds fb x y" by (simp add: in_bounds_def)
    show "blit_vx fb (fb_h fb) (fb_w fb) x = x \<and> blit_vy fb (fb_h fb) (fb_w fb) y = y
         \<and> blit_cell fb (fb_h fb) (fb_w fb) y x = get_fb fb x y
         \<and> get_fb fb x y = Some (fb_chars fb ! nat (y * fb_w fb + x))"
      using h blit_identity_coords [OF w, of x y] blit_cell_identity [OF assms, of y x]
        get_fb_in_bounds [OF assms(1) ib] by simp
  qed
  have rows: "\<And>y. y \<in> set [0 .. fb_h fb - 1] \<Longrightarrow>
      those (map (\<lambda>x. blit_cell fb (fb_h fb) (fb_w fb) y x) [0 .. fb_w fb - 1])
        = Some (map (\<lambda>x. fb_chars fb ! nat (y * fb_w fb + x)) [0 .. fb_w fb - 1])"
  proof -
    fix y assume y: "y \<in> set [0 .. fb_h fb - 1]"
    show "those (map (\<lambda>x. blit_cell fb (fb_h fb) (fb_w fb) y x) [0 .. fb_w fb - 1])
        = Some (map (\<lambda>x. fb_chars fb ! nat (y * fb_w fb + x)) [0 .. fb_w fb - 1])"
    proof (rule those_map_Some)
      fix x assume "x \<in> set [0 .. fb_w fb - 1]"
      then show "blit_cell fb (fb_h fb) (fb_w fb) y x = Some (fb_chars fb ! nat (y * fb_w fb + x))"
        using y blit_cell_identity [OF assms, of y x] by simp
    qed
  qed
  have d: "blitVirtualToCurses fb (fb_h fb) (fb_w fb) =
       Some (map (\<lambda>y. map (\<lambda>x. fb_chars fb ! nat (y * fb_w fb + x)) [0 .. fb_w fb - 1]) [0 .. fb_h fb - 1])"
  proof -
    have "those (map (\<lambda>y. those (map (\<lambda>x. blit_cell fb (fb_h fb) (fb_w fb) y x) [0 .. fb_w fb - 1]))
                   [0 .. fb_h fb - 1])
        = Some (map (\<lambda>y. map (\<lambda>x. fb_chars fb ! nat (y * fb_w fb + x)) [0 .. fb_w fb - 1]) [0 .. fb_h fb - 1])"
      by (rule those_map_Some) (rule rows)
    then show ?thesis using w a by (simp add: blitVirtualToCurses_def)
  qed
  show ?thesis using a b c d by blast
qed

theorem blit_identity_witness:
  "wf_fb \<lparr>fb_w = 2, fb_h = 2, fb_chars = ''.:-='', fb_depth = [1, 1, 1, 1]\<rparr>
   \<and> CHR 0x00 \<notin> set ''.:-=''
   \<and> blit_cell \<lparr>fb_w = 2, fb_h = 2, fb_chars = ''.:-='', fb_depth = [1, 1, 1, 1]\<rparr> 2 2 1 0 = Some (CHR ''-'')
   \<and> blitVirtualToCurses \<lparr>fb_w = 2, fb_h = 2, fb_chars = ''.:-='', fb_depth = [1, 1, 1, 1]\<rparr> 2 2
       = Some [''.:'', ''-='']"
proof -
  let ?fb = "\<lparr>fb_w = 2, fb_h = 2, fb_chars = ''.:-='', fb_depth = [1, 1, 1, 1]\<rparr>"
  have wf: "wf_fb ?fb" by (simp add: wf_fb_def)
  have nz: "CHR 0x00 \<notin> set (fb_chars ?fb)" by simp
  have u: "[0 .. 1] = [0, 1 :: int]" by code_simp
  have g: "get_fb ?fb 0 1 = Some (CHR ''-'')" by (simp add: get_fb_def)
  note t = blit_identity [OF wf nz]
  from t have "0 \<le> (1::int) \<and> (1::int) < fb_h ?fb \<and> 0 \<le> (0::int) \<and> (0::int) < fb_w ?fb \<longrightarrow>
      blit_cell ?fb (fb_h ?fb) (fb_w ?fb) 1 0 = get_fb ?fb 0 1"
    by blast
  then have c: "blit_cell ?fb 2 2 1 0 = Some (CHR ''-'')" using g by simp
  from t have "blitVirtualToCurses ?fb (fb_h ?fb) (fb_w ?fb) =
       Some (map (\<lambda>y. map (\<lambda>x. fb_chars ?fb ! nat (y * fb_w ?fb + x)) [0 .. fb_w ?fb - 1]) [0 .. fb_h ?fb - 1])"
    by blast
  then have b: "blitVirtualToCurses ?fb 2 2 = Some [''.:'', ''-='']"
    by (simp add: u)
  show ?thesis using wf c b by simp
qed

subsection \<open>The loops as a fold over the samples\<close>

lemma phi_loop_plot_all:
  "phi_loop fb Ax Ay theta phi = plot_all fb Ax Ay (map (Pair theta) (phi_angles phi))"
proof (induction fb Ax Ay theta phi rule: phi_loop.induct)
  case (1 fb Ax Ay theta phi)
  show ?case
  proof (cases "phi < 2 * pi")
    case True
    have a: "phi_angles phi = phi # phi_angles (phi + dPhi)"
      using True by (subst phi_angles.simps) simp
    show ?thesis
      using True 1
      by (subst phi_loop.simps) (simp add: a split: option.splits)
  next
    case False
    have a: "phi_angles phi = []" using False by (subst phi_angles.simps) simp
    show ?thesis using False by (subst phi_loop.simps) (simp add: a)
  qed
qed

lemma plot_all_append:
  "plot_all fb Ax Ay (xs @ ys) =
     (case plot_all fb Ax Ay xs of None \<Rightarrow> None | Some fb' \<Rightarrow> plot_all fb' Ax Ay ys)"
  by (induction xs arbitrary: fb) (simp_all split: option.splits)

lemma theta_loop_plot_all:
  "theta_loop fb Ax Ay theta = plot_all fb Ax Ay (samples_from theta)"
proof (induction fb Ax Ay theta rule: theta_loop.induct)
  case (1 fb Ax Ay theta)
  show ?case
  proof (cases "theta < 2 * pi")
    case True
    have a: "theta_angles theta = theta # theta_angles (theta + dTheta)"
      using True by (subst theta_angles.simps) simp
    have s: "samples_from theta = map (Pair theta) (phi_angles 0) @ samples_from (theta + dTheta)"
      by (simp add: samples_from_def a)
    show ?thesis
      using True 1
      by (subst theta_loop.simps) (simp add: s plot_all_append phi_loop_plot_all split: option.splits)
  next
    case False
    have a: "theta_angles theta = []" using False by (subst theta_angles.simps) simp
    show ?thesis using False by (subst theta_loop.simps) (simp add: samples_from_def a)
  qed
qed

lemma renderTorus_plot_all: "renderTorus fb Ax Ay = plot_all (clear fb) Ax Ay frame_samples"
  by (simp add: renderTorus_def theta_loop_plot_all frame_samples_def)

subsection \<open>Depth compositing over a frame\<close>

lemma Max_insert_max:
  fixes a b :: real
  assumes "finite S"
  shows "Max (insert (max a b) S) = Max (insert a (insert b S))"
  using assms by (cases "S = {}") (simp_all add: max.assoc)

lemma cell_fold_max: "fst (cell_fold cur hs) = Max (insert (fst cur) (fst ` set hs))"
proof (induction hs arbitrary: cur)
  case Nil
  then show ?case by simp
next
  case (Cons h hs)
  let ?cur = "if fst h > fst cur then h else cur"
  have m: "fst ?cur = max (fst cur) (fst h)" by simp
  have "fst (cell_fold cur (h # hs)) = Max (insert (fst ?cur) (fst ` set hs))"
    using Cons [of ?cur] by simp
  also have "\<dots> = Max (insert (fst cur) (insert (fst h) (fst ` set hs)))"
    unfolding m by (rule Max_insert_max) simp
  finally show ?case by simp
qed

lemma cell_fold_mem: "cell_fold cur hs = cur \<or> cell_fold cur hs \<in> set hs"
proof (induction hs arbitrary: cur)
  case Nil
  then show ?case by simp
next
  case (Cons h hs)
  show ?case
    using Cons [of h] Cons [of cur] by (cases "fst h > fst cur") auto
qed

lemma cell_fold_above:
  assumes "hs \<noteq> []" "\<forall>h \<in> set hs. fst cur < fst h"
  shows "cell_fold cur hs \<in> set hs \<and> fst (cell_fold cur hs) = Max (fst ` set hs)"
proof -
  have f: "finite (fst ` set hs)" "fst ` set hs \<noteq> {}" using assms(1) by simp_all
  obtain h where h: "h \<in> set hs" using assms(1) by (cases hs) auto
  have "fst cur < Max (fst ` set hs)"
    using assms(2) h f by (meson Max_ge image_eqI less_le_trans)
  then have m: "Max (insert (fst cur) (fst ` set hs)) = Max (fst ` set hs)"
    using f by simp
  then have e: "fst (cell_fold cur hs) = Max (fst ` set hs)" by (simp add: cell_fold_max)
  have "cell_fold cur hs \<noteq> cur"
    using e \<open>fst cur < Max (fst ` set hs)\<close> by auto
  then show ?thesis using cell_fold_mem [of cur hs] e by simp
qed

lemma step_cell:
  assumes "wf_fb fb" "in_bounds fb cx cy"
  shows "cell_at (spec_depthTestedWrite fb x y d c) cx cy =
     (if x = cx \<and> y = cy \<and> d > fst (cell_at fb cx cy) then (d, c) else cell_at fb cx cy)"
proof (cases "in_bounds fb x y \<and> d > fb_depth fb ! nat (y * fb_w fb + x)")
  case False
  then have "spec_depthTestedWrite fb x y d c = fb" by (auto simp add: spec_depthTestedWrite_def)
  then show ?thesis using False assms(2) by (auto simp add: cell_at_def)
next
  case True
  have r: "nat (cy * fb_w fb + cx) < nat (fb_w fb * fb_h fb)" "0 \<le> cy * fb_w fb + cx"
    using idx_range [OF assms] by simp_all
  have r': "nat (y * fb_w fb + x) < nat (fb_w fb * fb_h fb)" "0 \<le> y * fb_w fb + x"
    using idx_range [OF assms(1), of x y] True by simp_all
  have len: "length (fb_chars fb) = nat (fb_w fb * fb_h fb)" "length (fb_depth fb) = nat (fb_w fb * fb_h fb)"
    using assms(1) by (simp_all add: wf_fb_def)
  show ?thesis
  proof (cases "x = cx \<and> y = cy")
    case same: True
    then show ?thesis using True r len by (simp add: cell_at_def spec_depthTestedWrite_def)
  next
    case diff: False
    have "y * fb_w fb + x \<noteq> cy * fb_w fb + cx"
      using idx_inj [OF assms(1) _ assms(2), of x y] True diff by blast
    then have "nat (y * fb_w fb + x) \<noteq> nat (cy * fb_w fb + cx)" using r r' by simp
    then show ?thesis using True diff by (auto simp add: cell_at_def spec_depthTestedWrite_def)
  qed
qed

lemma hits_dims:
  assumes "fb_w a = fb_w b" "fb_h a = fb_h b"
  shows "hits a Ax Ay cx cy ss = hits b Ax Ay cx cy ss"
  using cell_dims [OF assms] by (simp add: hits_def)

lemma plot_all_cell:
  assumes "wf_fb fb" "in_bounds fb cx cy"
  shows "\<exists>fb'. plot_all fb Ax Ay ss = Some fb' \<and> wf_fb fb'
      \<and> fb_w fb' = fb_w fb \<and> fb_h fb' = fb_h fb
      \<and> cell_at fb' cx cy = cell_fold (cell_at fb cx cy) (map (sample_write Ax Ay) (hits fb Ax Ay cx cy ss))"
  using assms
proof (induction ss arbitrary: fb)
  case Nil
  then show ?case by (simp add: hits_def)
next
  case (Cons s ss)
  let ?fb1 = "spec_depthTestedWrite fb (cell_x fb Ax Ay (fst s) (snd s)) (cell_y fb Ax Ay (fst s) (snd s))
                (invZ Ax Ay (fst s) (snd s)) (ch Ax Ay (fst s) (snd s))"
  have b: "body fb Ax Ay (fst s) (snd s) = Some ?fb1" using Cons.prems(1) by (rule body_refines)
  have w1: "wf_fb ?fb1" using Cons.prems(1) by (rule spec_write_wf)
  have d1: "fb_w ?fb1 = fb_w fb" "fb_h ?fb1 = fb_h fb" by (simp_all add: spec_write_dims)
  have i1: "in_bounds ?fb1 cx cy" using Cons.prems(2) by (simp add: in_bounds_def d1)
  obtain fb' where f: "plot_all ?fb1 Ax Ay ss = Some fb'" "wf_fb fb'"
      "fb_w fb' = fb_w ?fb1" "fb_h fb' = fb_h ?fb1"
      "cell_at fb' cx cy = cell_fold (cell_at ?fb1 cx cy) (map (sample_write Ax Ay) (hits ?fb1 Ax Ay cx cy ss))"
    using Cons.IH [OF w1 i1] by blast
  have h: "hits ?fb1 Ax Ay cx cy ss = hits fb Ax Ay cx cy ss" using d1 by (rule hits_dims)
  have c: "cell_fold (cell_at ?fb1 cx cy) (map (sample_write Ax Ay) (hits fb Ax Ay cx cy ss))
      = cell_fold (cell_at fb cx cy) (map (sample_write Ax Ay) (hits fb Ax Ay cx cy (s # ss)))"
    unfolding step_cell [OF Cons.prems]
    by (simp add: hits_def sample_write_def)
  show ?case
    using b f d1 unfolding h c by simp
qed

lemma cell_at_clear:
  assumes "wf_fb fb" "in_bounds fb cx cy"
  shows "cell_at (clear fb) cx cy = (sentinel, blank)"
proof -
  have "nat (cy * fb_w fb + cx) < nat (fb_w fb * fb_h fb)" using idx_range [OF assms] by simp
  then show ?thesis using assms(1) by (simp add: cell_at_def clear_fields wf_fb_def)
qed

lemma two_writes_commute:
  assumes "wf_fb fb" "in_bounds fb x y" "d1 < d2" "fb_depth fb ! nat (y * fb_w fb + x) < d2"
  shows "Option.bind (set_fb fb x y d1 c1) (\<lambda>f. set_fb f x y d2 c2)
       = Option.bind (set_fb fb x y d2 c2) (\<lambda>f. set_fb f x y d1 c1)
     \<and> (\<exists>f. Option.bind (set_fb fb x y d1 c1) (\<lambda>f. set_fb f x y d2 c2) = Some f
          \<and> fb_chars f ! nat (y * fb_w fb + x) = c2 \<and> fb_depth f ! nat (y * fb_w fb + x) = d2)"
proof -
  let ?i = "nat (y * fb_w fb + x)"
  let ?a = "spec_depthTestedWrite fb x y d1 c1" and ?b = "spec_depthTestedWrite fb x y d2 c2"
  have r: "?i < nat (fb_w fb * fb_h fb)" using idx_range [OF assms(1,2)] by simp
  have len: "length (fb_chars fb) = nat (fb_w fb * fb_h fb)" "length (fb_depth fb) = nat (fb_w fb * fb_h fb)"
    using assms(1) by (simp_all add: wf_fb_def)
  have wa: "wf_fb ?a" and wb: "wf_fb ?b" using assms(1) by (simp_all add: spec_write_wf)
  have ia: "in_bounds ?a x y" and ib: "in_bounds ?b x y"
    using assms(2) by (simp_all add: in_bounds_def spec_write_dims)
  have s1: "set_fb fb x y d1 c1 = Some ?a" "set_fb fb x y d2 c2 = Some ?b"
    using assms(1,2) by (simp_all add: set_fb_in_bounds)
  have s2: "set_fb ?a x y d2 c2 = Some (spec_depthTestedWrite ?a x y d2 c2)"
    "set_fb ?b x y d1 c1 = Some (spec_depthTestedWrite ?b x y d1 c1)"
    using wa wb ia ib by (simp_all add: set_fb_in_bounds)
  have e1: "spec_depthTestedWrite ?a x y d2 c2 = ?b"
    using assms r len by (auto simp add: spec_depthTestedWrite_def in_bounds_def)
  have e2: "spec_depthTestedWrite ?b x y d1 c1 = ?b"
    using assms r len by (auto simp add: spec_depthTestedWrite_def in_bounds_def)
  have v: "fb_chars ?b ! ?i = c2 \<and> fb_depth ?b ! ?i = d2"
    using assms r len by (simp add: spec_depthTestedWrite_def)
  show ?thesis using v by (simp add: s1 s2 e1 e2)
qed

lemma ch_in_shades: "ch Ax Ay theta phi \<in> set shades"
proof -
  have l: "length shades = 10" by (simp add: shades_def)
  have "nat (shadeIdx Ax Ay theta phi) < length shades"
    unfolding l shadeIdx_def using shadeIdx_of_range [of "lum Ax Ay theta phi"] by linarith
  then show ?thesis unfolding ch_def by (rule nth_mem)
qed

lemma spec_write_chars:
  "set (fb_chars (spec_depthTestedWrite fb x y d c)) \<subseteq> insert c (set (fb_chars fb))"
  by (simp add: spec_depthTestedWrite_def set_update_subset_insert subset_insertI)

lemma plot_all_chars:
  assumes "wf_fb fb" "set (fb_chars fb) \<subseteq> set shades" "plot_all fb Ax Ay ss = Some fb'"
  shows "set (fb_chars fb') \<subseteq> set shades"
  using assms
proof (induction ss arbitrary: fb)
  case Nil
  then show ?case by simp
next
  case (Cons s ss)
  let ?fb1 = "spec_depthTestedWrite fb (cell_x fb Ax Ay (fst s) (snd s)) (cell_y fb Ax Ay (fst s) (snd s))
                (invZ Ax Ay (fst s) (snd s)) (ch Ax Ay (fst s) (snd s))"
  have b: "body fb Ax Ay (fst s) (snd s) = Some ?fb1" using Cons.prems(1) by (rule body_refines)
  have w1: "wf_fb ?fb1" using Cons.prems(1) by (rule spec_write_wf)
  have c1: "set (fb_chars ?fb1) \<subseteq> set shades"
    using spec_write_chars [of fb _ _ _ "ch Ax Ay (fst s) (snd s)"] Cons.prems(2) ch_in_shades
    by blast
  have "plot_all ?fb1 Ax Ay ss = Some fb'" using Cons.prems(3) b by simp
  then show ?case using Cons.IH [OF w1 c1] by simp
qed

text \<open>Every frame is produced (no index leaves the buffer) and holds ramp glyphs only.\<close>

lemma renderTorus_frame:
  assumes "wf_fb fb"
  shows "\<exists>fb'. renderTorus fb Ax Ay = Some fb' \<and> wf_fb fb'
     \<and> fb_w fb' = fb_w fb \<and> fb_h fb' = fb_h fb
     \<and> set (fb_chars fb') \<subseteq> set shades \<and> CHR 0x00 \<notin> set (fb_chars fb')"
proof -
  have c: "wf_fb (clear fb)" using assms by (rule wf_clear)
  have i0: "in_bounds (clear fb) 0 0" using assms by (simp add: in_bounds_def wf_fb_def clear_fields)
  obtain fb' where f: "plot_all (clear fb) Ax Ay frame_samples = Some fb'" "wf_fb fb'"
      "fb_w fb' = fb_w (clear fb)" "fb_h fb' = fb_h (clear fb)"
    using plot_all_cell [OF c i0] by blast
  have "set (fb_chars (clear fb)) \<subseteq> set shades"
    by (auto simp add: clear_fields blank_def shades_def)
  then have s: "set (fb_chars fb') \<subseteq> set shades" using plot_all_chars [OF c _ f(1)] by simp
  have "CHR 0x00 \<notin> set shades" by (simp add: shades_def)
  then have "CHR 0x00 \<notin> set (fb_chars fb')" using s by blast
  then show ?thesis using f s by (simp add: renderTorus_plot_all clear_fields)
qed

text \<open>
  C1. After a frame, every cell of the buffer holds as inverse depth the maximum of
  the inverse depths of the samples of the frame that mapped to it, the sentinel if
  there is none, and as glyph the glyph of a sample attaining that maximum, the blank if
  there is none. And of two samples of distinct inverse depths written to the same
  cell, the nearer one's glyph and depth stay, in whichever order the two are written.
\<close>

theorem frame_cell_is_nearest_sample:
  assumes "wf_fb fb" "in_bounds fb cx cy"
  shows "(\<exists>fb'. renderTorus fb Ax Ay = Some fb'
       \<and> fb_depth fb' ! nat (cy * fb_w fb + cx)
           = spec_cell_depth Ax Ay (hits fb Ax Ay cx cy frame_samples)
       \<and> (hits fb Ax Ay cx cy frame_samples = [] \<longrightarrow>
             fb_depth fb' ! nat (cy * fb_w fb + cx) = sentinel
             \<and> fb_chars fb' ! nat (cy * fb_w fb + cx) = blank)
       \<and> (hits fb Ax Ay cx cy frame_samples \<noteq> [] \<longrightarrow>
             fb_depth fb' ! nat (cy * fb_w fb + cx)
               = Max (set (map (\<lambda>s. invZ Ax Ay (fst s) (snd s)) (hits fb Ax Ay cx cy frame_samples)))
             \<and> (\<exists>s \<in> set (hits fb Ax Ay cx cy frame_samples).
                   invZ Ax Ay (fst s) (snd s) = fb_depth fb' ! nat (cy * fb_w fb + cx)
                   \<and> ch Ax Ay (fst s) (snd s) = fb_chars fb' ! nat (cy * fb_w fb + cx))))
   \<and> (d1 < d2 \<and> fb_depth fb ! nat (cy * fb_w fb + cx) < d2 \<longrightarrow>
         Option.bind (set_fb fb cx cy d1 c1) (\<lambda>f. set_fb f cx cy d2 c2)
           = Option.bind (set_fb fb cx cy d2 c2) (\<lambda>f. set_fb f cx cy d1 c1)
         \<and> (\<exists>f. Option.bind (set_fb fb cx cy d1 c1) (\<lambda>f. set_fb f cx cy d2 c2) = Some f
              \<and> fb_chars f ! nat (cy * fb_w fb + cx) = c2
              \<and> fb_depth f ! nat (cy * fb_w fb + cx) = d2))"
proof -
  let ?i = "nat (cy * fb_w fb + cx)"
  let ?hs = "hits fb Ax Ay cx cy frame_samples"
  let ?ws = "map (sample_write Ax Ay) ?hs"
  have c: "wf_fb (clear fb)" using assms(1) by (rule wf_clear)
  have ic: "in_bounds (clear fb) cx cy" using assms(2) by (simp add: in_bounds_def clear_fields)
  have hc: "hits (clear fb) Ax Ay cx cy frame_samples = ?hs"
    by (rule hits_dims) (simp_all add: clear_fields)
  obtain fb' where f: "plot_all (clear fb) Ax Ay frame_samples = Some fb'"
      "fb_w fb' = fb_w (clear fb)"
      "cell_at fb' cx cy = cell_fold (cell_at (clear fb) cx cy) ?ws"
    using plot_all_cell [OF c ic, of Ax Ay frame_samples] unfolding hc by blast
  have r: "renderTorus fb Ax Ay = Some fb'" using f(1) by (simp add: renderTorus_plot_all)
  have cell: "(fb_depth fb' ! ?i, fb_chars fb' ! ?i) = cell_fold (sentinel, blank) ?ws"
    using f(3) unfolding cell_at_clear [OF assms] by (simp add: cell_at_def f(2) clear_fields)
  have img: "fst ` set ?ws = set (map (\<lambda>s. invZ Ax Ay (fst s) (snd s)) ?hs)"
    by (simp add: sample_write_def image_image)
  have empty: "?hs = [] \<longrightarrow> fb_depth fb' ! ?i = sentinel \<and> fb_chars fb' ! ?i = blank"
    using cell by auto
  have nonempty: "?hs \<noteq> [] \<longrightarrow>
       fb_depth fb' ! ?i = Max (set (map (\<lambda>s. invZ Ax Ay (fst s) (snd s)) ?hs))
       \<and> (\<exists>s \<in> set ?hs. invZ Ax Ay (fst s) (snd s) = fb_depth fb' ! ?i
                          \<and> ch Ax Ay (fst s) (snd s) = fb_chars fb' ! ?i)"
  proof
    assume ne: "?hs \<noteq> []"
    then have ne': "?ws \<noteq> []" by simp
    have above: "\<forall>h \<in> set ?ws. fst (sentinel, blank) < fst h"
      by (simp add: sample_write_def invZ_gt_sentinel)
    have m: "cell_fold (sentinel, blank) ?ws \<in> set ?ws"
      "fst (cell_fold (sentinel, blank) ?ws) = Max (fst ` set ?ws)"
      using cell_fold_above [OF ne' above] by simp_all
    have d: "fb_depth fb' ! ?i = Max (set (map (\<lambda>s. invZ Ax Ay (fst s) (snd s)) ?hs))"
      using m(2) cell [symmetric] unfolding img by simp
    have "(fb_depth fb' ! ?i, fb_chars fb' ! ?i) \<in> set ?ws" using m(1) cell by simp
    then obtain s where "s \<in> set ?hs" "sample_write Ax Ay s = (fb_depth fb' ! ?i, fb_chars fb' ! ?i)"
      by auto
    then have "\<exists>s \<in> set ?hs. invZ Ax Ay (fst s) (snd s) = fb_depth fb' ! ?i
                          \<and> ch Ax Ay (fst s) (snd s) = fb_chars fb' ! ?i"
      by (auto simp add: sample_write_def)
    then show "fb_depth fb' ! ?i = Max (set (map (\<lambda>s. invZ Ax Ay (fst s) (snd s)) ?hs))
       \<and> (\<exists>s \<in> set ?hs. invZ Ax Ay (fst s) (snd s) = fb_depth fb' ! ?i
                          \<and> ch Ax Ay (fst s) (snd s) = fb_chars fb' ! ?i)"
      using d by simp
  qed
  have spec: "fb_depth fb' ! ?i = spec_cell_depth Ax Ay ?hs"
    using empty nonempty by (simp add: spec_cell_depth_def)
  have two: "d1 < d2 \<and> fb_depth fb ! ?i < d2 \<longrightarrow>
         Option.bind (set_fb fb cx cy d1 c1) (\<lambda>f. set_fb f cx cy d2 c2)
           = Option.bind (set_fb fb cx cy d2 c2) (\<lambda>f. set_fb f cx cy d1 c1)
         \<and> (\<exists>f. Option.bind (set_fb fb cx cy d1 c1) (\<lambda>f. set_fb f cx cy d2 c2) = Some f
              \<and> fb_chars f ! ?i = c2 \<and> fb_depth f ! ?i = d2)"
    using two_writes_commute [OF assms] by blast
  show ?thesis using r spec empty nonempty two by blast
qed

lemma frame_samples_first:
  "frame_samples = (0, 0) # map (Pair 0) (phi_angles dPhi) @ samples_from dTheta"
proof -
  have t: "theta_angles 0 = 0 # theta_angles dTheta"
    by (subst theta_angles.simps) simp
  have p: "phi_angles 0 = 0 # phi_angles dPhi"
    by (subst phi_angles.simps) simp
  show ?thesis
    unfolding frame_samples_def samples_from_def [of 0] t
    by (simp add: p samples_from_def)
qed

lemma vec_x_p_rot: "\<bar>vec_x (p_rot Ax Ay theta phi)\<bar> \<le> 3 / 2"
proof -
  let ?p = "p_rot Ax Ay theta phi"
  have "(vec_x ?p)\<^sup>2 \<le> dot ?p ?p"
    by (simp add: dot_def power2_eq_square)
  then have "(vec_x ?p)\<^sup>2 \<le> (3 / 2)\<^sup>2"
    using dot_p_rot [of Ax Ay theta phi] by (simp add: power2_eq_square)
  then show ?thesis
    by (simp add: abs_le_square_iff [symmetric])
qed

lemma x_proj_bound: "\<bar>x_proj Ax Ay theta phi\<bar> \<le> 1"
proof -
  have z: "0 \<le> invZ Ax Ay theta phi" "invZ Ax Ay theta phi \<le> 2 / 3"
    using invZ_bounds [of Ax Ay theta phi] by simp_all
  have "\<bar>x_proj Ax Ay theta phi\<bar> = \<bar>vec_x (p_rot Ax Ay theta phi)\<bar> * invZ Ax Ay theta phi"
    using z by (simp add: x_proj_def abs_mult)
  also have "\<dots> \<le> 3 / 2 * (2 / 3)"
    using vec_x_p_rot [of Ax Ay theta phi] z by (intro mult_mono) simp_all
  finally show ?thesis by simp
qed

lemma cell_x_wide: "44 \<le> cell_x (FrameBuffer_new 100 4) Ax Ay theta phi"
proof -
  have k: "K1 (FrameBuffer_new 100 4) = 3"
    by (simp add: K1_def FrameBuffer_new_dims std_min_def)
  have "- 1 \<le> x_proj Ax Ay theta phi" using x_proj_bound [of Ax Ay theta phi] by (simp add: abs_le_iff)
  then have "44 \<le> x_float (FrameBuffer_new 100 4) Ax Ay theta phi"
    by (simp add: x_float_def k xCellAspect_def FrameBuffer_new_dims)
  then have "to_int 44 \<le> to_int (x_float (FrameBuffer_new 100 4) Ax Ay theta phi)"
    by (rule to_int_mono)
  moreover have "to_int 44 = 44" by (simp add: to_int_def)
  ultimately show ?thesis by (simp add: cell_x_def)
qed

lemma hits_wide_empty: "hits (FrameBuffer_new 100 4) Ax Ay 0 0 ss = []"
proof -
  have "\<And>s. cell_x (FrameBuffer_new 100 4) Ax Ay (fst s) (snd s) \<noteq> 0"
    using cell_x_wide [of Ax Ay] by (metis not_numeral_le_zero)
  then show ?thesis by (simp add: hits_def)
qed

theorem frame_cell_is_nearest_sample_witness:
  "wf_fb (FrameBuffer_new 4 4) \<and> in_bounds (FrameBuffer_new 4 4) 3 2
   \<and> hits (FrameBuffer_new 4 4) 0 0 3 2 frame_samples \<noteq> []
   \<and> (\<exists>fb'. renderTorus (FrameBuffer_new 4 4) 0 0 = Some fb'
         \<and> fb_depth fb' ! 11
             = Max (set (map (\<lambda>s. invZ 0 0 (fst s) (snd s)) (hits (FrameBuffer_new 4 4) 0 0 3 2 frame_samples)))
         \<and> (\<exists>s \<in> set (hits (FrameBuffer_new 4 4) 0 0 3 2 frame_samples).
               invZ 0 0 (fst s) (snd s) = fb_depth fb' ! 11 \<and> ch 0 0 (fst s) (snd s) = fb_chars fb' ! 11))
   \<and> wf_fb (FrameBuffer_new 100 4) \<and> in_bounds (FrameBuffer_new 100 4) 0 0
   \<and> hits (FrameBuffer_new 100 4) 0 0 0 0 frame_samples = []
   \<and> (\<exists>fb'. renderTorus (FrameBuffer_new 100 4) 0 0 = Some fb'
         \<and> fb_depth fb' ! 0 = sentinel \<and> fb_chars fb' ! 0 = CHR '' '')
   \<and> (1 / 4 :: real) < 1 / 3 \<and> fb_depth (FrameBuffer_new 2 2) ! 1 < 1 / 3
   \<and> Option.bind (set_fb (FrameBuffer_new 2 2) 1 0 (1 / 4) (CHR ''#'')) (\<lambda>f. set_fb f 1 0 (1 / 3) (CHR ''@''))
       = Option.bind (set_fb (FrameBuffer_new 2 2) 1 0 (1 / 3) (CHR ''@'')) (\<lambda>f. set_fb f 1 0 (1 / 4) (CHR ''#''))
   \<and> (\<exists>f. Option.bind (set_fb (FrameBuffer_new 2 2) 1 0 (1 / 4) (CHR ''#'')) (\<lambda>f. set_fb f 1 0 (1 / 3) (CHR ''@''))
             = Some f
          \<and> fb_chars f ! 1 = CHR ''@'' \<and> fb_depth f ! 1 = 1 / 3)"
proof -
  have wf4: "wf_fb (FrameBuffer_new 4 4)" and wfw: "wf_fb (FrameBuffer_new 100 4)"
    and wf2: "wf_fb (FrameBuffer_new 2 2)"
    by (simp_all add: wf_FrameBuffer_new)
  have ib4: "in_bounds (FrameBuffer_new 4 4) 3 2" and ibw: "in_bounds (FrameBuffer_new 100 4) 0 0"
    and ib2: "in_bounds (FrameBuffer_new 2 2) 1 0"
    by (simp_all add: in_bounds_def FrameBuffer_new_dims)
  have ne: "hits (FrameBuffer_new 4 4) 0 0 3 2 frame_samples \<noteq> []"
    by (simp add: hits_def frame_samples_first cell_origin_4)
  have em: "hits (FrameBuffer_new 100 4) 0 0 0 0 frame_samples = []"
    by (rule hits_wide_empty)
  have d2: "fb_depth (FrameBuffer_new 2 2) ! 1 < 1 / 3"
    by (simp add: FrameBuffer_new_def sentinel_def)
  have a: "\<exists>fb'. renderTorus (FrameBuffer_new 4 4) 0 0 = Some fb'
         \<and> fb_depth fb' ! 11
             = Max (set (map (\<lambda>s. invZ 0 0 (fst s) (snd s)) (hits (FrameBuffer_new 4 4) 0 0 3 2 frame_samples)))
         \<and> (\<exists>s \<in> set (hits (FrameBuffer_new 4 4) 0 0 3 2 frame_samples).
               invZ 0 0 (fst s) (snd s) = fb_depth fb' ! 11 \<and> ch 0 0 (fst s) (snd s) = fb_chars fb' ! 11)"
    using frame_cell_is_nearest_sample [OF wf4 ib4, of 0 0 0 0 "CHR '' ''" "CHR '' ''"] ne
    by (simp add: FrameBuffer_new_dims) blast
  have b: "\<exists>fb'. renderTorus (FrameBuffer_new 100 4) 0 0 = Some fb'
         \<and> fb_depth fb' ! 0 = sentinel \<and> fb_chars fb' ! 0 = CHR '' ''"
    using frame_cell_is_nearest_sample [OF wfw ibw, of 0 0 0 0 "CHR '' ''" "CHR '' ''"] em
    by (simp add: FrameBuffer_new_dims blank_def) blast
  have c: "Option.bind (set_fb (FrameBuffer_new 2 2) 1 0 (1 / 4) (CHR ''#'')) (\<lambda>f. set_fb f 1 0 (1 / 3) (CHR ''@''))
       = Option.bind (set_fb (FrameBuffer_new 2 2) 1 0 (1 / 3) (CHR ''@'')) (\<lambda>f. set_fb f 1 0 (1 / 4) (CHR ''#''))
     \<and> (\<exists>f. Option.bind (set_fb (FrameBuffer_new 2 2) 1 0 (1 / 4) (CHR ''#'')) (\<lambda>f. set_fb f 1 0 (1 / 3) (CHR ''@''))
             = Some f
          \<and> fb_chars f ! 1 = CHR ''@'' \<and> fb_depth f ! 1 = 1 / 3)"
    using frame_cell_is_nearest_sample [OF wf2 ib2, of 0 0 "1 / 4" "1 / 3" "CHR ''#''" "CHR ''@''"] d2
    by (simp add: FrameBuffer_new_dims) metis
  have q: "(1 / 4 :: real) < 1 / 3" by simp
  show ?thesis
    using wf4 wfw ib4 ibw ne em q d2 a b c by blast
qed

end
